theory Spec2Isabelle
  imports Main "HOL-Library.Word" "HOL-Library.AList"
begin

chapter \<open>The program\<close>

section \<open>Bytes, slices and the codecs of the struct module\<close>

text \<open>
  A Python \<open>bytes\<close> value is a list of 8-bit words. Lengths, offsets and the values of
  unsigned fields are natural numbers: Python integers do not wrap, and every offset the
  code computes with \<open>+\<close> stays non-negative. The one subtraction of the scanner
  (\<open>head + ioffs - 0x10\<close>) is computed over \<open>int\<close>.
\<close>

type_synonym byte = "8 word"

type_synonym bytes = "byte list"

datatype py_error = StructError | AttributeError | ValueError | IndexError | TypeError

text \<open>\<open>xs[a:b]\<close> for non-negative \<open>a\<close> and \<open>b\<close>: clamped to the list, empty when \<open>b \<le> a\<close>.\<close>

definition py_slice :: "'a list \<Rightarrow> nat \<Rightarrow> nat \<Rightarrow> 'a list" where
  "py_slice xs a b = take (b - a) (drop a xs)"

text \<open>\<open>struct.unpack('<I', b)[0]\<close>: raises unless \<open>b\<close> has exactly four bytes.\<close>

fun unpack_le32 :: "bytes \<Rightarrow> nat option" where
  "unpack_le32 [b0, b1, b2, b3] =
     Some (unat b0 + 256 * unat b1 + 65536 * unat b2 + 16777216 * unat b3)"
| "unpack_le32 _ = None"

text \<open>\<open>struct.pack('<I', n)\<close>: raises \<open>struct.error\<close> unless \<open>0 \<le> n < 2 ** 32\<close>.\<close>

definition pack_le32 :: "nat \<Rightarrow> py_error + bytes" where
  "pack_le32 n =
     (if n < 2 ^ 32
      then Inr [of_nat n, of_nat (n div 256), of_nat (n div 65536), of_nat (n div 16777216)]
      else Inl StructError)"

text \<open>
  \<open>data.find(pat, start)\<close> and the scanner's \<open>re.search\<close> of a literal byte pattern from
  \<open>start\<close>: the lowest index at or after \<open>start\<close> where \<open>pat\<close> occurs.
\<close>

fun find_from :: "'a list \<Rightarrow> 'a list \<Rightarrow> nat \<Rightarrow> nat option" where
  "find_from pat [] off = (if pat = [] then Some off else None)"
| "find_from pat (x # xs) off =
     (if take (length pat) (x # xs) = pat then Some off else find_from pat xs (Suc off))"

definition bytes_find :: "'a list \<Rightarrow> 'a list \<Rightarrow> nat \<Rightarrow> nat option" where
  "bytes_find pat data start =
     (if start \<le> length data then find_from pat (drop start data) start else None)"

lemma find_from_Some:
  "find_from pat xs off = Some p \<Longrightarrow>
     \<exists>k. p = off + k \<and> k + length pat \<le> length xs \<and> take (length pat) (drop k xs) = pat \<and>
         (\<forall>j<k. take (length pat) (drop j xs) \<noteq> pat)"
proof (induction xs arbitrary: off)
  case Nil
  then show ?case by (auto split: if_splits)
next
  case (Cons x xs)
  show ?case
  proof (cases "take (length pat) (x # xs) = pat")
    case True
    with Cons.prems have "p = off" by simp
    moreover from True have "length pat \<le> length (x # xs)"
      by (metis length_take min.cobounded1)
    ultimately show ?thesis using True by (intro exI [of _ 0]) simp
  next
    case False
    with Cons.prems have "find_from pat xs (Suc off) = Some p" by simp
    from Cons.IH [OF this] obtain k where k: "p = Suc off + k" "k + length pat \<le> length xs"
      "take (length pat) (drop k xs) = pat" "\<forall>j<k. take (length pat) (drop j xs) \<noteq> pat"
      by blast
    have "\<forall>j<Suc k. take (length pat) (drop j (x # xs)) \<noteq> pat"
    proof (intro allI impI)
      fix j assume "j < Suc k"
      then show "take (length pat) (drop j (x # xs)) \<noteq> pat"
        using False k(4) by (cases j) auto
    qed
    with k show ?thesis by (intro exI [of _ "Suc k"]) simp
  qed
qed


lemma bytes_find_Some:
  assumes "bytes_find pat data s = Some p"
  shows "s \<le> p" and "p + length pat \<le> length data"
    and "py_slice data p (p + length pat) = pat"
    and "\<And>q. s \<le> q \<Longrightarrow> q < p \<Longrightarrow> py_slice data q (q + length pat) \<noteq> pat"
proof -
  from assms have s: "s \<le> length data" and f: "find_from pat (drop s data) s = Some p"
    by (auto simp: bytes_find_def split: if_splits)
  from find_from_Some [OF f] obtain k where k: "p = s + k" "k + length pat \<le> length (drop s data)"
    "take (length pat) (drop k (drop s data)) = pat"
    "\<forall>j<k. take (length pat) (drop j (drop s data)) \<noteq> pat" by blast
  show "s \<le> p" using k by simp
  show "p + length pat \<le> length data" using k s by simp
  show "py_slice data p (p + length pat) = pat" using k by (simp add: py_slice_def add.commute)
  show "py_slice data q (q + length pat) \<noteq> pat" if "s \<le> q" "q < p" for q
  proof -
    from that k have "q - s < k" by simp
    with k(4) have "take (length pat) (drop (q - s) (drop s data)) \<noteq> pat" by blast
    with that show ?thesis by (simp add: py_slice_def)
  qed
qed


section \<open>Format A: the ASUS packer scanner\<close>

record image_info =
  number :: nat
  img_type :: string
  img_size :: nat
  offset_in_package :: nat
  absolute_offset :: nat
  img_data :: bytes
  metadata_offset :: nat
  special_pattern_offset :: nat
  special_pattern :: bytes

record package_info =
  header_offset :: nat
  header_end :: nat
  images :: "image_info list"
  total_size :: nat

definition asus_pattern :: bytes where
  "asus_pattern =
     [0x00, 0x00, 0x00, 0x00, 0x20, 0x00, 0x00, 0x00,
      0xFF, 0xFF, 0x00, 0x00, 0xFF, 0xFF, 0x00, 0x00,
      0x00, 0x00, 0x00, 0x00, 0x00, 0x00, 0x00, 0x00,
      0x00, 0x00, 0x00, 0x00, 0x00, 0x00, 0x00, 0x00]"

definition expected_pattern :: bytes where
  "expected_pattern =
     [0x00, 0x00, 0x00, 0x00, 0x30, 0x00, 0x09, 0x04,
      0x00, 0x00, 0x00, 0x00, 0x00, 0x00, 0x00, 0x00]"

text \<open>\<open>detect_asus_image_type\<close>: the type is read from the first four bytes.\<close>

definition detect_asus_image_type :: "bytes \<Rightarrow> string" where
  "detect_asus_image_type d =
     (if length d < 4 then ''img''
      else let h = take 4 d in
        if take 2 h = [0x42, 0x4D] then ''bmp''
        else if take 3 h = [0xFF, 0xD8, 0xFF] then ''jpg''
        else if h = [0x89, 0x50, 0x4E, 0x47] then ''png''
        else if h = [0x47, 0x49, 0x46, 0x38] then ''gif''
        else if h = [0x00, 0x00, 0x01, 0x00] \<or> h = [0x00, 0x00, 0x02, 0x00] then ''ico''
        else ''img'')"

text \<open>
  One pass of the entry loop of \<open>detect_asus_packer_format\<close> at cursor \<open>head\<close>, with
  \<open>image_nr\<close> entries decoded so far. \<open>Inl\<close> names the \<open>break\<close> that was taken.
\<close>

datatype stop_reason = Truncated | Sentinel | GuardMismatch | BoundsExceeded

definition parse_entry :: "bytes \<Rightarrow> nat \<Rightarrow> nat \<Rightarrow> stop_reason + image_info" where
  "parse_entry data head image_nr =
     (if head + 8 > length data then Inl Truncated
      else
        case (unpack_le32 (py_slice data head (head + 4)),
              unpack_le32 (py_slice data (head + 4) (head + 8))) of
          (Some isize, Some ioffs) \<Rightarrow>
            if isize = 0 \<or> ioffs = 0 then Inl Sentinel
            else
              let check_offset = int head + int ioffs - 16 in
              if check_offset \<ge> 0 \<and> nat check_offset + 16 \<le> length data \<and>
                 py_slice data (nat check_offset) (nat check_offset + 16) \<noteq> expected_pattern
              then Inl GuardMismatch
              else
                let img_start = head + ioffs;
                    img_end = img_start + isize
                in
                  if img_end > length data then Inl BoundsExceeded
                  else
                    let d = py_slice data img_start img_end in
                    Inr \<lparr> number = image_nr + 1,
                          img_type = detect_asus_image_type d,
                          img_size = isize,
                          offset_in_package = ioffs,
                          absolute_offset = img_start,
                          img_data = d,
                          metadata_offset = head,
                          special_pattern_offset = head + 8,
                          special_pattern = py_slice data (head + 8) (head + 8 + 24) \<rparr>
        | _ \<Rightarrow> Inl Truncated)"

text \<open>\<open>padding = (4 - (isize % 4)) % 4\<close>, in the scanner and in the rebuild.\<close>

definition padding :: "nat \<Rightarrow> nat" where
  "padding n = (4 - n mod 4) mod 4"

lemma parse_entry_in_bounds:
  "parse_entry data head image_nr = Inr info \<Longrightarrow> head + 8 \<le> length data"
  by (auto simp: parse_entry_def split: if_splits)

text \<open>
  The inner \<open>while True\<close> of \<open>detect_asus_packer_format\<close>: the list of images decoded so
  far and the final cursor. Every pass moves the cursor forward by at least 33.
\<close>

function entry_loop ::
  "bytes \<Rightarrow> nat \<Rightarrow> nat \<Rightarrow> image_info list \<Rightarrow> image_info list \<times> nat" where
  "entry_loop data head image_nr imgs =
     (case parse_entry data head image_nr of
        Inl _ \<Rightarrow> (imgs, head)
      | Inr info \<Rightarrow>
          entry_loop data (head + 32 + img_size info + padding (img_size info))
            (image_nr + 1) (imgs @ [info]))"
  by pat_completeness auto

termination
  by (relation "measure (\<lambda>(data, head, image_nr, imgs). length data - head)")
     (auto dest: parse_entry_in_bounds)

declare entry_loop.simps [simp del]

lemma entry_loop_head_mono: "head \<le> snd (entry_loop data head image_nr imgs)"
proof (induction data head image_nr imgs rule: entry_loop.induct)
  case (1 data head image_nr imgs)
  show ?case
  proof (cases "parse_entry data head image_nr")
    case (Inl r)
    then show ?thesis by (subst entry_loop.simps) simp
  next
    case (Inr info)
    from "1.IH" [OF Inr] Inr show ?thesis by (subst entry_loop.simps) simp
  qed
qed

text \<open>
  The outer \<open>while True\<close>: search the signature from \<open>position\<close>, decode the entries
  behind it, go on from the final cursor.
\<close>

function detect_from :: "bytes \<Rightarrow> nat \<Rightarrow> package_info list" where
  "detect_from data position =
     (case bytes_find asus_pattern data position of
        None \<Rightarrow> []
      | Some start_match \<Rightarrow>
          let end_match = start_match + 32;
              r = entry_loop data end_match 0 []
          in \<lparr> header_offset = start_match, header_end = end_match,
                images = fst r, total_size = snd r - start_match \<rparr>
             # detect_from data (snd r))"
  by pat_completeness auto

termination
proof (relation "measure (\<lambda>(data, position). length data - position)", goal_cases)
  case 1
  show ?case by simp
next
  case (2 data position start_match end_match r)
  from bytes_find_Some(1,2) [OF 2(1)] have "position \<le> start_match" "start_match + 32 \<le> length data"
    by (simp_all add: asus_pattern_def)
  moreover from 2 have "start_match + 32 \<le> snd r"
    using entry_loop_head_mono [of "start_match + 32" data 0 "[]"] by simp
  ultimately show ?case by simp
qed

declare detect_from.simps [simp del]

definition detect_asus_packer_format :: "bytes \<Rightarrow> package_info list" where
  "detect_asus_packer_format data = detect_from data 0"

section \<open>The BMP sniffer of the analyzer\<close>






section \<open>File names of replacement candidates\<close>

text \<open>
  A file name is a Python \<open>str\<close>: a list of Unicode code points. ASCII literals and the
  output of the number formats are written as HOL strings and converted by \<open>ustr\<close>.
\<close>

type_synonym ustring = "nat list"

definition ustr :: "string \<Rightarrow> ustring" where
  "ustr s = map of_char s"

text \<open>Python's \<open>f"{n}"\<close>, \<open>f"{n:08x}"\<close> and \<open>f"{n:X}"\<close> for a non-negative integer.\<close>

function to_digits :: "nat \<Rightarrow> nat \<Rightarrow> nat list" where
  "to_digits b n = (if n < b \<or> b < 2 then [n] else to_digits b (n div b) @ [n mod b])"
  by pat_completeness auto

termination
  by (relation "measure snd") auto

declare to_digits.simps [simp del]

definition digit_char :: "string \<Rightarrow> nat \<Rightarrow> char" where
  "digit_char alphabet d = alphabet ! d"

definition str_dec :: "nat \<Rightarrow> string" where
  "str_dec n = map (digit_char ''0123456789'') (to_digits 10 n)"

definition str_hex08 :: "nat \<Rightarrow> string" where
  "str_hex08 n =
     (let ds = map (digit_char ''0123456789abcdef'') (to_digits 16 n)
      in replicate (8 - length ds) (CHR ''0'') @ ds)"

definition str_HEX :: "nat \<Rightarrow> string" where
  "str_HEX n = map (digit_char ''0123456789ABCDEF'') (to_digits 16 n)"

definition image_filename :: "nat \<Rightarrow> nat \<Rightarrow> string \<Rightarrow> ustring" where
  "image_filename nr abs_offset ext =
     ustr (''image_nr'' @ str_dec nr @ ''_off0x'' @ str_hex08 abs_offset @ ''.'' @ ext)"

definition candidate_filename :: "image_info \<Rightarrow> ustring" where
  "candidate_filename img = image_filename (number img) (absolute_offset img) (img_type img)"

text \<open>
  The pattern \<open>^image_nr(\d+)_off0x([0-9A-Fa-f]+)\.[a-zA-Z0-9]+$\<close> is a \<open>str\<close> pattern
  compiled without flags, so \<open>\d\<close> is the class of the Unicode decimal digits: the code
  points that have a decimal value, which come in blocks of ten consecutive code points
  for the values 0 to 9. \<open>decimal_zeros\<close> lists the first code point of every block of
  the Unicode Character Database 14.0 (the database of CPython 3.11); \<open>int\<close> reads a digit
  of any block as its decimal value. The two bracketed classes are the ASCII ranges
  written in them.
\<close>

definition decimal_zeros :: "nat list" where
  "decimal_zeros =
     [0x30, 0x660, 0x6F0, 0x7C0, 0x966, 0x9E6, 0xA66, 0xAE6, 0xB66, 0xBE6, 0xC66, 0xCE6,
      0xD66, 0xDE6, 0xE50, 0xED0, 0xF20, 0x1040, 0x1090, 0x17E0, 0x1810, 0x1946, 0x19D0,
      0x1A80, 0x1A90, 0x1B50, 0x1BB0, 0x1C40, 0x1C50, 0xA620, 0xA8D0, 0xA900, 0xA9D0,
      0xA9F0, 0xAA50, 0xABF0, 0xFF10, 0x104A0, 0x10D30, 0x11066, 0x110F0, 0x11136,
      0x111D0, 0x112F0, 0x11450, 0x114D0, 0x11650, 0x116C0, 0x11730, 0x118E0, 0x11950,
      0x11C50, 0x11D50, 0x11DA0, 0x16A60, 0x16AC0, 0x16B50, 0x1D7CE, 0x1D7D8, 0x1D7E2,
      0x1D7EC, 0x1D7F6, 0x1E140, 0x1E2F0, 0x1E950, 0x1FBF0]"

definition decimal_value :: "nat \<Rightarrow> nat option" where
  "decimal_value c =
     (case filter (\<lambda>z. z \<le> c \<and> c < z + 10) decimal_zeros of
        [] \<Rightarrow> None
      | z # _ \<Rightarrow> Some (c - z))"

definition is_digit :: "nat \<Rightarrow> bool" where
  "is_digit c \<longleftrightarrow> decimal_value c \<noteq> None"

definition is_hex :: "nat \<Rightarrow> bool" where
  "is_hex c \<longleftrightarrow> c \<in> set (ustr ''0123456789ABCDEFabcdef'')"

definition is_alnum :: "nat \<Rightarrow> bool" where
  "is_alnum c \<longleftrightarrow>
     c \<in> set (ustr ''abcdefghijklmnopqrstuvwxyzABCDEFGHIJKLMNOPQRSTUVWXYZ0123456789'')"

text \<open>
  \<open>re.match(pattern, filename)\<close>. Each repetition is followed by a character outside its
  class, so the greedy match is the only one; \<open>$\<close> matches at the end and before one
  final newline.
\<close>

fun strip_prefix :: "'a list \<Rightarrow> 'a list \<Rightarrow> 'a list option" where
  "strip_prefix [] s = Some s"
| "strip_prefix (p # ps) [] = None"
| "strip_prefix (p # ps) (c # cs) = (if p = c then strip_prefix ps cs else None)"

definition matches_image_pattern :: "ustring \<Rightarrow> bool" where
  "matches_image_pattern s =
     (case strip_prefix (ustr ''image_nr'') s of
        None \<Rightarrow> False
      | Some r1 \<Rightarrow>
          takeWhile is_digit r1 \<noteq> [] \<and>
          (case strip_prefix (ustr ''_off0x'') (dropWhile is_digit r1) of
             None \<Rightarrow> False
           | Some r2 \<Rightarrow>
               takeWhile is_hex r2 \<noteq> [] \<and>
               (case strip_prefix (ustr ''.'') (dropWhile is_hex r2) of
                  None \<Rightarrow> False
                | Some r3 \<Rightarrow>
                    takeWhile is_alnum r3 \<noteq> [] \<and>
                    (dropWhile is_alnum r3 = [] \<or> dropWhile is_alnum r3 = [0x0A]))))"

section \<open>Format A: change detection and rebuild\<close>

text \<open>
  The extracted directory is read through two lookups: whether the directory of package
  \<open>pkg_idx\<close> exists, and the content of a file of that directory by name (\<open>None\<close>: no such
  file). Reading and writing files is assumed to succeed; the result of a rebuild is
  \<open>Inr None\<close> when the method returns \<open>False\<close> without writing, \<open>Inr (Some out)\<close> when it
  returns \<open>True\<close> after writing \<open>out\<close> to the output file, and \<open>Inl e\<close> when it raises.
\<close>

type_synonym pkg_dir = "ustring \<Rightarrow> bytes option"

type_synonym extracted_dir = "nat \<Rightarrow> pkg_dir option"

record modified_info =
  original_image :: image_info
  new_data :: bytes
  new_size :: nat
  size_diff :: int
  package_idx :: nat

type_synonym modified_dict = "(nat \<times> modified_info) list"

record detect_state =
  modified_images :: modified_dict
  unchanged_count :: nat
  modified_count :: nat

text \<open>\<open>_validate_image_replacement\<close>.\<close>

definition validate_image_replacement :: "image_info \<Rightarrow> bytes \<Rightarrow> bool" where
  "validate_image_replacement original new_bytes \<longleftrightarrow>
     img_type original = detect_asus_image_type new_bytes"

text \<open>
  Step 2 of \<open>rebuild_asus_packer_preserve_structure\<close>: the body of the loop over the
  images of one package, and the loop over the packages (\<open>enumerate(..., 1)\<close>).
\<close>

definition detect_image :: "pkg_dir \<Rightarrow> nat \<Rightarrow> detect_state \<Rightarrow> image_info \<Rightarrow> detect_state" where
  "detect_image dir pkg_idx st img =
     (let abs_offset = absolute_offset img;
          original_size = img_size img;
          filename = image_filename (number img) abs_offset (img_type img)
      in
        if \<not> matches_image_pattern filename
        then st\<lparr> unchanged_count := unchanged_count st + 1 \<rparr>
        else
          case dir filename of
            None \<Rightarrow> st
          | Some extracted_data \<Rightarrow>
              if \<not> validate_image_replacement img extracted_data
              then st\<lparr> unchanged_count := unchanged_count st + 1 \<rparr>
              else if extracted_data = img_data img
              then st\<lparr> unchanged_count := unchanged_count st + 1 \<rparr>
              else st\<lparr> modified_count := modified_count st + 1,
                       modified_images :=
                         AList.update abs_offset
                           \<lparr> original_image = img,
                             new_data = extracted_data,
                             new_size = length extracted_data,
                             size_diff = int (length extracted_data) - int original_size,
                             package_idx = pkg_idx \<rparr>
                           (modified_images st) \<rparr>)"

fun detect_packages ::
  "extracted_dir \<Rightarrow> nat \<Rightarrow> package_info list \<Rightarrow> detect_state \<Rightarrow> detect_state" where
  "detect_packages dir pkg_idx [] st = st"
| "detect_packages dir pkg_idx (package # rest) st =
     (case dir pkg_idx of
        None \<Rightarrow> detect_packages dir (pkg_idx + 1) rest st
      | Some pd \<Rightarrow>
          detect_packages dir (pkg_idx + 1) rest
            (foldl (detect_image pd pkg_idx) st (images package)))"

text \<open>
  \<open>_direct_replace_images\<close>: the offsets are visited in descending order; an entry whose
  new payload has another length, or another type, is skipped.
\<close>

definition replace_step :: "modified_dict \<Rightarrow> bytes \<Rightarrow> nat \<Rightarrow> bytes" where
  "replace_step modified new_bytes off =
     (case map_of modified off of
        None \<Rightarrow> new_bytes
      | Some info \<Rightarrow>
          let original = original_image info;
              new_image_data = new_data info;
              original_size = img_size original
          in
            if length new_image_data \<noteq> original_size then new_bytes
            else if \<not> validate_image_replacement original new_image_data then new_bytes
            else take off new_bytes @ new_image_data @ drop (off + original_size) new_bytes)"

definition direct_replace_images :: "bytes \<Rightarrow> modified_dict \<Rightarrow> bytes" where
  "direct_replace_images data modified =
     foldl (replace_step modified) data (rev (sort (map fst modified)))"

text \<open>
  \<open>_structure_preserving_rebuild\<close>. \<open>emit_image\<close> is what one pass of the loop over the
  sorted images appends: size, relative offset \<open>0x20\<close>, the 24-byte pattern, the payload
  and the padding. \<open>rebuild_packages\<close> is the loop over the packages, with the buffer built
  so far and \<open>current_pos\<close>.
\<close>

definition default_pattern_first :: bytes where
  "default_pattern_first =
     [0xFF, 0xFF, 0x0A, 0x00, 0xFF, 0xFF, 0x00, 0x40, 0x00, 0x00, 0x00, 0x00,
      0x30, 0x00, 0x09, 0x04, 0x00, 0x00, 0x00, 0x00, 0x00, 0x00, 0x00, 0x00]"

definition default_pattern_other :: bytes where
  "default_pattern_other =
     [0x00, 0xFF, 0xFF, 0x0A, 0x00, 0xFF, 0xFF, 0x02, 0x00, 0x00, 0x00, 0x00,
      0x30, 0x00, 0x09, 0x04, 0x00, 0x00, 0x00, 0x00, 0x00, 0x00, 0x00, 0x00]"

definition emitted_payload :: "modified_dict \<Rightarrow> image_info \<Rightarrow> bytes" where
  "emitted_payload modified img_info =
     (case map_of modified (absolute_offset img_info) of
        Some info \<Rightarrow> new_data info
      | None \<Rightarrow> img_data img_info)"

definition emitted_pattern :: "bytes \<Rightarrow> image_info \<Rightarrow> bytes" where
  "emitted_pattern data img_info =
     (if special_pattern img_info \<noteq> [] \<and> length (special_pattern img_info) = 24
      then special_pattern img_info
      else if metadata_offset img_info + 32 \<le> length data
      then py_slice data (metadata_offset img_info + 8) (metadata_offset img_info + 32)
      else if number img_info = 1 then default_pattern_first
      else default_pattern_other)"

definition emit_image :: "bytes \<Rightarrow> modified_dict \<Rightarrow> image_info \<Rightarrow> py_error + bytes" where
  "emit_image data modified img_info =
     (let payload = emitted_payload modified img_info in
      case pack_le32 (length payload) of
        Inl e \<Rightarrow> Inl e
      | Inr size_bytes \<Rightarrow>
          (case pack_le32 0x20 of
             Inl e \<Rightarrow> Inl e
           | Inr offset_bytes \<Rightarrow>
               Inr (size_bytes @ offset_bytes @ emitted_pattern data img_info @ payload
                    @ replicate (padding (length payload)) 0)))"

fun emit_images ::
  "bytes \<Rightarrow> modified_dict \<Rightarrow> image_info list \<Rightarrow> bytes \<Rightarrow> py_error + bytes" where
  "emit_images data modified [] new_bytes = Inr new_bytes"
| "emit_images data modified (img_info # rest) new_bytes =
     (case emit_image data modified img_info of
        Inl e \<Rightarrow> Inl e
      | Inr bs \<Rightarrow> emit_images data modified rest (new_bytes @ bs))"

fun rebuild_packages ::
  "bytes \<Rightarrow> modified_dict \<Rightarrow> package_info list \<Rightarrow> bytes \<Rightarrow> nat \<Rightarrow> py_error + bytes \<times> nat"
  where
  "rebuild_packages data modified [] new_bytes current_pos = Inr (new_bytes, current_pos)"
| "rebuild_packages data modified (package # rest) new_bytes current_pos =
     (let pkg_start = header_offset package;
          preserved = (if current_pos < pkg_start then py_slice data current_pos pkg_start
                       else []);
          original_header = py_slice data pkg_start (header_end package);
          sorted_images = sort_key number (images package)
      in
        case emit_images data modified sorted_images (new_bytes @ preserved @ original_header) of
          Inl e \<Rightarrow> Inl e
        | Inr bs \<Rightarrow>
            rebuild_packages data modified rest bs (pkg_start + total_size package))"

definition structure_preserving_rebuild ::
  "bytes \<Rightarrow> package_info list \<Rightarrow> modified_dict \<Rightarrow> py_error + bytes" where
  "structure_preserving_rebuild data original_packages modified =
     (case rebuild_packages data modified original_packages [] 0 of
        Inl e \<Rightarrow> Inl e
      | Inr (new_bytes, current_pos) \<Rightarrow>
          Inr (if current_pos < length data then new_bytes @ drop current_pos data
               else new_bytes))"

text \<open>
  \<open>rebuild_asus_packer_preserve_structure\<close>. With no modified image the method copies the
  file it was loaded from, whose content is \<open>data\<close>.
\<close>

definition initial_detect_state :: detect_state where
  "initial_detect_state = \<lparr> modified_images = [], unchanged_count = 0, modified_count = 0 \<rparr>"

definition total_size_change :: "modified_dict \<Rightarrow> int" where
  "total_size_change modified = sum_list (map (size_diff \<circ> snd) modified)"

definition rebuild_asus_packer_preserve_structure ::
  "bytes \<Rightarrow> extracted_dir option \<Rightarrow> py_error + bytes option" where
  "rebuild_asus_packer_preserve_structure data extracted =
     (case extracted of
        None \<Rightarrow> Inr None
      | Some dir \<Rightarrow>
          let original_packages = detect_asus_packer_format data in
          if original_packages = [] then Inr None
          else
            let st = detect_packages dir 1 original_packages initial_detect_state in
            if modified_count st = 0 then Inr (Some data)
            else if total_size_change (modified_images st) = 0
            then Inr (Some (direct_replace_images data (modified_images st)))
            else
              case structure_preserving_rebuild data original_packages (modified_images st) of
                Inl e \<Rightarrow> Inl e
              | Inr out \<Rightarrow> Inr (Some out))"

section \<open>Format B: the MSI analyzer\<close>

text \<open>
  \<open>MSIHeader\<close> and the entry dictionary of \<open>_find_msi_entries\<close> (its \<open>image_preview\<close>, a
  hex string for the report, is left out).
\<close>

record msi_header =
  signature :: bytes
  sector :: nat
  layer :: nat
  image_number :: nat
  reserved :: nat
  image_size :: nat

record msi_entry =
  index :: nat
  offset :: nat
  header :: msi_header
  image_data_offset :: nat
  image_data_size :: nat
  image_type :: ustring

text \<open>\<open>b'$MsI$'\<close>: five bytes.\<close>

definition MSI_SIGNATURE :: bytes where
  "MSI_SIGNATURE = [0x24, 0x4D, 0x73, 0x49, 0x24]"

definition HEADER_SIZE :: nat where
  "HEADER_SIZE = 12"

definition magic_patterns :: "(bytes \<times> string) list" where
  "magic_patterns =
     [(MSI_SIGNATURE, ''MSI Packer Header''),
      ([0xFF, 0xD8, 0xFF], ''JPEG Image Start''),
      ([0x89, 0x50, 0x4E, 0x47], ''PNG Image Start''),
      ([0x42, 0x4D], ''BMP Image Start''),
      ([0x00, 0x00, 0x01, 0x00], ''ICO Image Start''),
      ([0x52, 0x49, 0x46, 0x46], ''RIFF Container''),
      ([0x4D, 0x5A], ''PE/DOS Executable''),
      ([0x5F, 0x46, 0x56, 0x48], ''UEFI Firmware Volume'')]"

definition hex_byte :: "byte \<Rightarrow> string" where
  "hex_byte b =
     [digit_char ''0123456789ABCDEF'' (unat b div 16),
      digit_char ''0123456789ABCDEF'' (unat b mod 16)]"

text \<open>
  \<open>_detect_image_type\<close>. The result is a \<open>str\<close>; the word between \<open>Unknown (\<close> and the
  colon is Korean text of two code points.
\<close>

definition msi_detect_image_type :: "bytes \<Rightarrow> ustring" where
  "msi_detect_image_type image_data =
     (if image_data = [] then ustr ''Empty''
      else
        case filter (\<lambda>(magic, desc). take (length magic) image_data = magic) magic_patterns of
          (magic, desc) # _ \<Rightarrow> ustr desc
        | [] \<Rightarrow>
            if length image_data \<ge> 4
            then ustr ''Unknown ('' @ [0xC2DC, 0xC791]
                 @ ustr ('': '' @ concat (map hex_byte (take 4 image_data)) @ '')'')
            else ustr ''Unknown'')"

text \<open>\<open>_parse_msi_header\<close>.\<close>

definition parse_msi_header :: "bytes \<Rightarrow> nat \<Rightarrow> py_error + msi_header" where
  "parse_msi_header data off =
     (if off + HEADER_SIZE > length data then Inl ValueError
      else
        let header_data = py_slice data off (off + HEADER_SIZE) in
        case unpack_le32 (py_slice header_data 8 12) of
          None \<Rightarrow> Inl StructError
        | Some sz \<Rightarrow>
            Inr \<lparr> signature = py_slice header_data 0 4,
                  sector = unat (header_data ! 4),
                  layer = unat (header_data ! 5),
                  image_number = unat (header_data ! 6),
                  reserved = unat (header_data ! 7),
                  image_size = sz \<rparr>)"

text \<open>
  \<open>_find_msi_entries\<close>, with the signature the instance carries as a parameter. The loop
  condition \<open>offset < len(data) - HEADER_SIZE\<close> is over Python integers; it is
  \<open>offset + HEADER_SIZE < len(data)\<close>.
\<close>

function find_msi_entries_from ::
  "bytes \<Rightarrow> bytes \<Rightarrow> nat \<Rightarrow> msi_entry list \<Rightarrow> msi_entry list" where
  "find_msi_entries_from sig data off entries =
     (if off + HEADER_SIZE < length data then
        if py_slice data off (off + 4) = sig then
          case parse_msi_header data off of
            Inl e \<Rightarrow> find_msi_entries_from sig data (off + 1) entries
          | Inr hdr \<Rightarrow>
              let image_start = off + HEADER_SIZE;
                  image_end = image_start + image_size hdr
              in
                if image_end \<le> length data then
                  find_msi_entries_from sig data image_end
                    (entries @
                      [\<lparr> index = length entries,
                          offset = off,
                          header = hdr,
                          image_data_offset = image_start,
                          image_data_size = image_size hdr,
                          image_type = msi_detect_image_type (py_slice data image_start image_end)
                        \<rparr>])
                else find_msi_entries_from sig data (off + 1) entries
        else find_msi_entries_from sig data (off + 1) entries
      else entries)"
  by pat_completeness auto

termination
  by (relation "measure (\<lambda>(sig, data, off, entries). length data - off)")
     (auto simp: HEADER_SIZE_def)

declare find_msi_entries_from.simps [simp del]

definition find_msi_entries :: "bytes \<Rightarrow> msi_entry list" where
  "find_msi_entries data = find_msi_entries_from MSI_SIGNATURE data 0 []"

section \<open>Format B: the MSI repacker\<close>

text \<open>
  An instance is its attribute dictionary: reading an attribute that was never assigned
  raises \<open>AttributeError\<close>. \<open>__init__\<close> assigns four attributes; no method assigns another
  name (\<open>repack_results\<close> is reassigned, for the report only).
\<close>

datatype attr_value = BytesAttr bytes | IntAttr nat | ExtensionsAttr "ustring list" | ResultsAttr

type_synonym py_instance = "string \<Rightarrow> attr_value option"

definition supported_extensions :: "ustring list" where
  "supported_extensions =
     map ustr [''.bin'', ''.jpg'', ''.jpeg'', ''.png'', ''.bmp'', ''.ico'']"

definition MSIImageRepacker_init :: py_instance where
  "MSIImageRepacker_init =
     map_of [(''MSI_SIGNATURE'', BytesAttr MSI_SIGNATURE),
             (''HEADER_SIZE'', IntAttr 12),
             (''supported_extensions'', ExtensionsAttr supported_extensions),
             (''repack_results'', ResultsAttr)]"

definition getattr :: "py_instance \<Rightarrow> string \<Rightarrow> py_error + attr_value" where
  "getattr self name = (case self name of None \<Rightarrow> Inl AttributeError | Some v \<Rightarrow> Inr v)"

definition ebind :: "'e + 'a \<Rightarrow> ('a \<Rightarrow> 'e + 'b) \<Rightarrow> 'e + 'b" where
  "ebind m f = (case m of Inl e \<Rightarrow> Inl e | Inr x \<Rightarrow> f x)"

definition get_bytes :: "py_instance \<Rightarrow> string \<Rightarrow> py_error + bytes" where
  "get_bytes self name =
     ebind (getattr self name) (\<lambda>v. case v of BytesAttr b \<Rightarrow> Inr b | _ \<Rightarrow> Inl TypeError)"

definition get_int :: "py_instance \<Rightarrow> string \<Rightarrow> py_error + nat" where
  "get_int self name =
     ebind (getattr self name) (\<lambda>v. case v of IntAttr n \<Rightarrow> Inr n | _ \<Rightarrow> Inl TypeError)"

text \<open>
  A \<open>bytearray\<close>: \<open>b[a:c] = ys\<close> replaces the slice and may change the length;
  \<open>b[i] = v\<close> needs \<open>i\<close> in range and \<open>v < 256\<close>; \<open>struct.pack_into('<I', b, off, n)\<close> needs
  four bytes at \<open>off\<close>.
\<close>

definition set_slice :: "bytes \<Rightarrow> nat \<Rightarrow> nat \<Rightarrow> bytes \<Rightarrow> bytes" where
  "set_slice b a c ys = take a b @ ys @ drop (max a c) b"

definition set_item :: "bytes \<Rightarrow> nat \<Rightarrow> nat \<Rightarrow> py_error + bytes" where
  "set_item b i v =
     (if i < length b then (if v < 256 then Inr (b[i := of_nat v]) else Inl ValueError)
      else Inl IndexError)"

definition pack_into_le32 :: "bytes \<Rightarrow> nat \<Rightarrow> nat \<Rightarrow> py_error + bytes" where
  "pack_into_le32 b off n =
     ebind (pack_le32 n) (\<lambda>bs.
       if off + 4 \<le> length b then Inr (take off b @ bs @ drop (off + 4) b)
       else Inl StructError)"

text \<open>
  An entry of the structure information, with the keys the header builder reads through
  \<open>.get(key, 0)\<close>; both producers of such entries set \<open>index\<close>, so an entry is never an
  empty (false) dictionary.
\<close>

record structure_entry =
  info_index :: nat
  info_sector :: "nat option"
  info_layer :: "nat option"
  info_image_number :: "nat option"
  info_reserved :: "nat option"

definition get_or :: "'a option \<Rightarrow> 'a \<Rightarrow> 'a" where
  "get_or v d = (case v of None \<Rightarrow> d | Some x \<Rightarrow> x)"

text \<open>
  \<open>_create_msi_header\<close> and \<open>_create_msi_header_from_structure\<close>: a zeroed array of
  \<open>HEADER_SIZE\<close> bytes, the signature assigned to its slice \<open>[0:4]\<close>, four single bytes,
  and the size packed at offset 8.
\<close>

definition create_msi_header :: "py_instance \<Rightarrow> nat \<Rightarrow> nat \<Rightarrow> py_error + bytes" where
  "create_msi_header self image_nr image_sz =
     ebind (get_int self ''HEADER_SIZE'') (\<lambda>hs.
     ebind (get_bytes self ''MSI_SIGNATURE'') (\<lambda>sig.
     ebind (set_item (set_slice (replicate hs 0) 0 4 sig) 4 0) (\<lambda>h4.
     ebind (set_item h4 5 0) (\<lambda>h5.
     ebind (set_item h5 6 (image_nr mod 256)) (\<lambda>h6.
     ebind (set_item h6 7 0) (\<lambda>h7.
     pack_into_le32 h7 8 image_sz))))))"

definition create_msi_header_from_structure ::
  "py_instance \<Rightarrow> structure_entry \<Rightarrow> nat \<Rightarrow> py_error + bytes" where
  "create_msi_header_from_structure self info image_sz =
     ebind (get_int self ''HEADER_SIZE'') (\<lambda>hs.
     ebind (get_bytes self ''msi_signature'') (\<lambda>sig.
     ebind (set_item (set_slice (replicate hs 0) 0 4 sig) 4 (get_or (info_sector info) 0 mod 256))
       (\<lambda>h4.
     ebind (set_item h4 5 (get_or (info_layer info) 0 mod 256)) (\<lambda>h5.
     ebind (set_item h5 6 (get_or (info_image_number info) 0 mod 256)) (\<lambda>h6.
     ebind (set_item h6 7 (get_or (info_reserved info) 0 mod 256)) (\<lambda>h7.
     pack_into_le32 h7 8 image_sz))))))"

text \<open>
  \<open>_create_msi_binary_with_structure\<close>. An image file is its name and the bytes read from
  it. The output file is opened before the loop, so it exists with what was written so
  far when an exception ends the loop; the result is the returned flag and that content.
\<close>

fun write_entries ::
  "py_instance \<Rightarrow> structure_entry list option \<Rightarrow> nat \<Rightarrow> (ustring \<times> bytes) list \<Rightarrow> bytes
     \<Rightarrow> py_error option \<times> bytes" where
  "write_entries self structure_info i [] out = (None, out)"
| "write_entries self structure_info i ((filename, image_data) # rest) out =
     (let header_info =
            (case structure_info of
               Some entries \<Rightarrow> if i < length entries then Some (entries ! i) else None
             | None \<Rightarrow> None)
      in
        case (case header_info of
                Some info \<Rightarrow> create_msi_header_from_structure self info (length image_data)
              | None \<Rightarrow> create_msi_header self i (length image_data)) of
          Inl e \<Rightarrow> (Some e, out)
        | Inr hdr \<Rightarrow> write_entries self structure_info (i + 1) rest (out @ hdr @ image_data))"

definition create_msi_binary_with_structure ::
  "py_instance \<Rightarrow> (ustring \<times> bytes) list \<Rightarrow> structure_entry list option \<Rightarrow> bool \<times> bytes" where
  "create_msi_binary_with_structure self image_files structure_info =
     (case write_entries self structure_info 0 image_files [] of
        (None, out) \<Rightarrow> (True, out)
      | (Some e, out) \<Rightarrow> (False, out))"

text \<open>
  The \<open>MSI_pack\<close> directory: its entries in \<open>os.listdir\<close> order, each a regular file with
  its content or a directory, and what \<open>_parse_metadata_file\<close> reads from
  \<open>msi_structure_info.txt\<close> (\<open>None\<close>: no such file). The directory is read one level
  deep: a path names an entry of the listing or nothing.
\<close>

datatype dir_node = RegularFile bytes | Directory

record msi_pack_dir =
  listing :: "(ustring \<times> dir_node) list"
  metadata_entries :: "structure_entry list option"

text \<open>
  \<open>_repack_with_structure_preservation\<close>: the structure information comes from the
  analysis or from the metadata file, the image files are the regular files whose names
  pass the three tests, sorted by \<open>_extract_image_number\<close>; fewer than two of them end
  the method before the output file is opened. \<open>modified\<close> is passed in and not read.
\<close>

definition starts_with :: "'a list \<Rightarrow> 'a list \<Rightarrow> bool" where
  "starts_with p s \<longleftrightarrow> take (length p) s = p"

definition ends_with :: "'a list \<Rightarrow> 'a list \<Rightarrow> bool" where
  "ends_with p s \<longleftrightarrow> length p \<le> length s \<and> drop (length s - length p) s = p"

text \<open>
  \<open>_extract_image_number\<close>: \<open>int\<close> of the digits that \<open>image_nr(\d+)_\<close> captures, each digit
  read as its decimal value whatever its block; 0 when the name does not match. CPython
  3.11 refuses to convert more than 4300 digits with a \<open>ValueError\<close>, which the method
  catches to return 0.
\<close>

definition digit_value :: "nat \<Rightarrow> nat" where
  "digit_value c = get_or (decimal_value c) 0"

definition parse_dec :: "ustring \<Rightarrow> nat" where
  "parse_dec ds = foldl (\<lambda>n c. 10 * n + digit_value c) 0 ds"

definition extract_image_number :: "ustring \<Rightarrow> nat" where
  "extract_image_number filename =
     (case strip_prefix (ustr ''image_nr'') filename of
        None \<Rightarrow> 0
      | Some r \<Rightarrow>
          if takeWhile is_digit r \<noteq> [] \<and> starts_with (ustr ''_'') (dropWhile is_digit r)
          then (if length (takeWhile is_digit r) > 4300 then 0
                else parse_dec (takeWhile is_digit r))
          else 0)"

definition structure_of_entry :: "msi_entry \<Rightarrow> structure_entry" where
  "structure_of_entry entry =
     \<lparr> info_index = index entry,
       info_sector = Some (sector (header entry)),
       info_layer = Some (layer (header entry)),
       info_image_number = Some (image_number (header entry)),
       info_reserved = Some (reserved (header entry)) \<rparr>"

definition collect_image_files :: "msi_pack_dir \<Rightarrow> (ustring \<times> bytes) list" where
  "collect_image_files dir =
     concat (map (\<lambda>(filename, node).
        if starts_with (ustr ''image_nr'') filename \<and> \<not> ends_with (ustr ''.txt'') filename \<and>
           matches_image_pattern filename
        then (case node of RegularFile content \<Rightarrow> [(filename, content)] | Directory \<Rightarrow> [])
        else []) (listing dir))"

record msi_modified_info =
  original_entry :: msi_entry
  msi_new_data :: bytes
  msi_new_size :: nat
  msi_size_diff :: int
  filepath :: ustring

type_synonym msi_modified_dict = "(nat \<times> msi_modified_info) list"

definition repack_with_structure_preservation ::
  "py_instance \<Rightarrow> msi_pack_dir \<Rightarrow> msi_entry list option \<Rightarrow> msi_modified_dict option
     \<Rightarrow> bool \<times> bytes option" where
  "repack_with_structure_preservation self dir original_analysis modified =
     (let structure_info =
            (case original_analysis of
               Some entries \<Rightarrow> Some (map structure_of_entry entries)
             | None \<Rightarrow> metadata_entries dir);
          image_files = sort_key (extract_image_number \<circ> fst) (collect_image_files dir)
      in
        if length image_files < 2 then (False, None)
        else
          case create_msi_binary_with_structure self image_files structure_info of
            (success, out) \<Rightarrow> (success, Some out))"

text \<open>
  \<open>_detect_modified_images\<close>: for every entry of the analysis, the bytes of the original
  file at \<open>entry['offset']\<close> are compared with the candidate file, which is looked up
  under the entry's type as extension and then under each supported extension. The
  counters of the method are only printed.
\<close>

definition candidate_stem :: "msi_entry \<Rightarrow> ustring" where
  "candidate_stem entry =
     ustr (''image_nr'' @ str_dec (index entry) @ ''_off0x'' @ str_HEX (offset entry))"

definition find_candidate_path :: "msi_pack_dir \<Rightarrow> ustring \<Rightarrow> ustring \<Rightarrow> ustring" where
  "find_candidate_path dir filename ext =
     (let path = filename @ ustr ''.'' @ ext in
      if map_of (listing dir) path \<noteq> None then path
      else
        case filter (\<lambda>e. map_of (listing dir) (filename @ e) \<noteq> None) supported_extensions of
          [] \<Rightarrow> path
        | e # _ \<Rightarrow> filename @ e)"

definition detect_modified_entry ::
  "msi_pack_dir \<Rightarrow> bytes \<Rightarrow> msi_modified_dict \<Rightarrow> msi_entry \<Rightarrow> msi_modified_dict" where
  "detect_modified_entry dir original_data modified entry =
     (let entry_index = index entry;
          abs_offset = offset entry;
          original_size = image_data_size entry;
          end_offset = abs_offset + original_size
      in
        if end_offset > length original_data then modified
        else
          let original_image_data = py_slice original_data abs_offset end_offset;
              path = find_candidate_path dir (candidate_stem entry) (image_type entry)
          in
            case map_of (listing dir) path of
              Some (RegularFile extracted_data) \<Rightarrow>
                if extracted_data = original_image_data then modified
                else AList.update entry_index
                       \<lparr> original_entry = entry,
                         msi_new_data = extracted_data,
                         msi_new_size = length extracted_data,
                         msi_size_diff = int (length extracted_data) - int original_size,
                         filepath = path \<rparr> modified
            | _ \<Rightarrow> modified)"

definition detect_modified_images ::
  "msi_pack_dir \<Rightarrow> bytes \<Rightarrow> msi_entry list option \<Rightarrow> msi_modified_dict" where
  "detect_modified_images dir original_data original_analysis =
     (case original_analysis of
        None \<Rightarrow> []
      | Some entries \<Rightarrow> foldl (detect_modified_entry dir original_data) [] entries)"

text \<open>\<open>_copy_original_file\<close>: the output file gets the content of the original file.\<close>

definition copy_original_file :: "bytes \<Rightarrow> bool \<times> bytes option" where
  "copy_original_file original_data = (True, Some original_data)"

text \<open>
  \<open>repack_from_directory\<close>. The input directory is missing, holds an \<open>MSI_pack\<close>
  directory (the first one listed), or holds none. In the last case the general mode
  runs: its detector and its writer are not modelled, their results (whether
  \<open>_detect_modified_images_simple\<close> found a change, what \<open>_repack_simple_mode\<close> returns)
  are parameters. \<open>original_file\<close> is the content of the original file when a path was
  given and exists.
\<close>

datatype input_dir = MissingDir | StructureDir msi_pack_dir | GeneralDir

definition repack_from_directory ::
  "py_instance \<Rightarrow> input_dir \<Rightarrow> msi_entry list option \<Rightarrow> bytes option \<Rightarrow> bool
     \<Rightarrow> bool \<times> bytes option \<Rightarrow> bool \<times> bytes option" where
  "repack_from_directory self input original_analysis original_file general_changed
       general_result =
     (case input of
        MissingDir \<Rightarrow> (False, None)
      | StructureDir dir \<Rightarrow>
          (case original_file of
             Some original_data \<Rightarrow>
               let modified = detect_modified_images dir original_data original_analysis in
               if modified = [] then copy_original_file original_data
               else repack_with_structure_preservation self dir original_analysis (Some modified)
           | None \<Rightarrow> repack_with_structure_preservation self dir original_analysis None)
      | GeneralDir \<Rightarrow>
          (case original_file of
             Some original_data \<Rightarrow>
               if \<not> general_changed then copy_original_file original_data
               else general_result
           | None \<Rightarrow> general_result))"

chapter \<open>Properties\<close>

section \<open>File names\<close>

lemma ustr_inject [simp]: "ustr a = ustr b \<longleftrightarrow> a = b"
  by (simp add: ustr_def inj_map_eq_map [OF inj_of_char])

lemma ustr_append [simp]:
  "ustr a @ ustr b = ustr (a @ b)" "ustr a @ ustr b @ c = ustr (a @ b) @ c"
  by (simp_all add: ustr_def)

lemma strip_prefix_Some: "strip_prefix p s = Some r \<longleftrightarrow> s = p @ r"
  by (induction p s rule: strip_prefix.induct) auto

lemma matches_starts_with:
  "matches_image_pattern s \<Longrightarrow> starts_with (ustr ''image_nr'') s"
  by (auto simp: matches_image_pattern_def starts_with_def strip_prefix_Some
      split: option.splits)

lemmas name_defs = matches_image_pattern_def ustr_def is_digit_def is_hex_def is_alnum_def
  decimal_value_def decimal_zeros_def

section \<open>The BMP sniffer: which positions are reported\<close>


lemma unpack_le32_Some_length: "unpack_le32 bs = Some n \<Longrightarrow> length bs = 4"
  by (induction bs rule: unpack_le32.induct) auto





section \<open>A two-entry format-A buffer, evaluated\<close>

definition ex_pattern1 :: bytes where
  "ex_pattern1 = [0xFF, 0xFF, 0x0A, 0x00, 0xFF, 0xFF, 0x00, 0x40,
                  0x00, 0x00, 0x00, 0x00, 0x30, 0x00, 0x09, 0x04,
                  0x00, 0x00, 0x00, 0x00, 0x00, 0x00, 0x00, 0x00]"

definition ex_pattern2 :: bytes where
  "ex_pattern2 = [0x00, 0xFF, 0xFF, 0x0A, 0x00, 0xFF, 0xFF, 0x02,
                  0x00, 0x00, 0x00, 0x00, 0x30, 0x00, 0x09, 0x04,
                  0x00, 0x00, 0x00, 0x00, 0x00, 0x00, 0x00, 0x00]"

definition ex_data :: bytes where
  "ex_data = asus_pattern
     @ [4, 0, 0, 0] @ [0x20, 0, 0, 0] @ ex_pattern1 @ [1, 2, 3, 4]
     @ [5, 0, 0, 0] @ [0x20, 0, 0, 0] @ ex_pattern2 @ [5, 6, 7, 8, 9] @ [0, 0, 0]"

definition ex_image1 :: image_info where
  "ex_image1 = \<lparr> number = 1, img_type = ''img'', img_size = 4, offset_in_package = 32,
       absolute_offset = 64, img_data = [1, 2, 3, 4], metadata_offset = 32,
       special_pattern_offset = 40, special_pattern = ex_pattern1 \<rparr>"

definition ex_image2 :: image_info where
  "ex_image2 = \<lparr> number = 2, img_type = ''img'', img_size = 5, offset_in_package = 32,
       absolute_offset = 100, img_data = [5, 6, 7, 8, 9], metadata_offset = 68,
       special_pattern_offset = 76, special_pattern = ex_pattern2 \<rparr>"

lemmas ex_defs = ex_data_def asus_pattern_def ex_pattern1_def ex_pattern2_def

lemma ex_find0: "bytes_find asus_pattern ex_data 0 = Some 0"
  by (simp add: bytes_find_def ex_defs)

lemma ex_find108: "bytes_find asus_pattern ex_data 108 = None"
  by (simp add: bytes_find_def ex_defs)

lemma ex_parse1: "parse_entry ex_data 32 0 = Inr ex_image1"
  by (simp add: parse_entry_def ex_defs py_slice_def expected_pattern_def
      detect_asus_image_type_def ex_image1_def)

lemma ex_parse2: "parse_entry ex_data 68 (Suc 0) = Inr ex_image2"
  by (simp add: parse_entry_def ex_defs py_slice_def expected_pattern_def
      detect_asus_image_type_def ex_image2_def)

lemma ex_parse3: "parse_entry ex_data 108 (Suc (Suc 0)) = Inl Truncated"
  by (simp add: parse_entry_def ex_defs)

lemma ex_sizes: "img_size ex_image1 = 4" "img_size ex_image2 = 5"
  by (simp_all add: ex_image1_def ex_image2_def)

lemma ex_entry_loop: "entry_loop ex_data 32 0 [] = ([ex_image1, ex_image2], 108)"
proof -
  have "entry_loop ex_data 108 (Suc (Suc 0)) [ex_image1, ex_image2] = ([ex_image1, ex_image2], 108)"
    by (subst entry_loop.simps) (simp add: ex_parse3)
  then have "entry_loop ex_data 68 (Suc 0) [ex_image1] = ([ex_image1, ex_image2], 108)"
    by (subst entry_loop.simps) (simp add: ex_parse2 ex_sizes padding_def)
  then show ?thesis
    by (subst entry_loop.simps) (simp add: ex_parse1 ex_sizes padding_def)
qed

definition ex_package :: package_info where
  "ex_package = \<lparr> header_offset = 0, header_end = 32, images = [ex_image1, ex_image2],
                   total_size = 108 \<rparr>"

lemma ex_detect: "detect_asus_packer_format ex_data = [ex_package]"
proof -
  have "detect_from ex_data 108 = []"
    by (subst detect_from.simps) (simp add: ex_find108)
  then show ?thesis
    unfolding detect_asus_packer_format_def
    by (subst detect_from.simps) (simp add: ex_find0 ex_entry_loop ex_package_def)
qed

section \<open>When the entry loop stops\<close>

text \<open>The three stop conditions, as the specification words them.\<close>

definition read_u32 :: "bytes \<Rightarrow> nat \<Rightarrow> nat option" where
  "read_u32 data off = unpack_le32 (py_slice data off (off + 4))"

definition end_sentinel :: "bytes \<Rightarrow> nat \<Rightarrow> bool" where
  "end_sentinel data head \<longleftrightarrow>
     read_u32 data head = Some 0 \<or> read_u32 data (head + 4) = Some 0"

definition guard_differs :: "bytes \<Rightarrow> nat \<Rightarrow> bool" where
  "guard_differs data head =
     (case (read_u32 data head, read_u32 data (head + 4)) of
        (Some isize, Some ioffs) \<Rightarrow>
          py_slice data (head + ioffs - 16) (head + ioffs) \<noteq> expected_pattern
      | _ \<Rightarrow> False)"

definition payload_exceeds :: "bytes \<Rightarrow> nat \<Rightarrow> bool" where
  "payload_exceeds data head =
     (case (read_u32 data head, read_u32 data (head + 4)) of
        (Some isize, Some ioffs) \<Rightarrow> head + ioffs + isize > length data
      | _ \<Rightarrow> False)"

lemma unpack_le32_total: "length bs = 4 \<Longrightarrow> \<exists>n. unpack_le32 bs = Some n"
proof -
  assume "length bs = 4"
  then obtain a b c d where "bs = [a, b, c, d]"
    by (auto simp: length_Suc_conv numeral_eq_Suc)
  then show ?thesis by simp
qed

lemma read_u32_total: "off + 4 \<le> length data \<Longrightarrow> \<exists>n. read_u32 data off = Some n"
  unfolding read_u32_def by (rule unpack_le32_total) (simp add: py_slice_def)

lemma read_u32_None: "\<not> off + 4 \<le> length data \<Longrightarrow> read_u32 data off = None"
proof -
  assume a: "\<not> off + 4 \<le> length data"
  show ?thesis
  proof (cases "read_u32 data off")
    case (Some n)
    then have "length (py_slice data off (off + 4)) = 4"
      unfolding read_u32_def by (rule unpack_le32_Some_length)
    with a show ?thesis by (simp add: py_slice_def)
  qed simp
qed

lemma length_expected_pattern: "length expected_pattern = 16"
  by (simp add: expected_pattern_def)

lemma parse_entry_isl_indep:
  "isl (parse_entry data head n) = isl (parse_entry data head m)"
  by (simp add: parse_entry_def Let_def split: option.splits prod.splits)

lemma parse_entry_stops_iff:
  assumes "16 \<le> head"
  shows "isl (parse_entry data head image_nr) \<longleftrightarrow>
     length data < head + 8 \<or> end_sentinel data head \<or> guard_differs data head \<or>
     payload_exceeds data head"
proof (cases "length data < head + 8")
  case True
  then show ?thesis by (simp add: parse_entry_def)
next
  case False
  then have "head + 4 \<le> length data" "head + 4 + 4 \<le> length data" by simp_all
  then obtain isize ioffs where r: "read_u32 data head = Some isize"
      "read_u32 data (head + 4) = Some ioffs"
    using read_u32_total by blast
  then have u: "unpack_le32 (py_slice data head (head + 4)) = Some isize"
      "unpack_le32 (py_slice data (head + 4) (head + 8)) = Some ioffs"
    by (simp_all add: read_u32_def add.assoc)
  show ?thesis
  proof (cases "isize = 0 \<or> ioffs = 0")
    case True
    with False u r show ?thesis by (auto simp: parse_entry_def end_sentinel_def)
  next
    case nz: False
    from assms have co: "int head + int ioffs - 16 \<ge> 0"
        "nat (int head + int ioffs - 16) = head + ioffs - 16" by simp_all
    have short: "py_slice data (head + ioffs - 16) (head + ioffs) \<noteq> expected_pattern"
      if "\<not> head + ioffs \<le> length data"
    proof
      assume "py_slice data (head + ioffs - 16) (head + ioffs) = expected_pattern"
      then have "length (py_slice data (head + ioffs - 16) (head + ioffs)) = 16"
        by (simp add: length_expected_pattern)
      with that assms show False by (simp add: py_slice_def)
    qed
    have es: "\<not> end_sentinel data head" using nz r by (simp add: end_sentinel_def)
    have gd: "guard_differs data head \<longleftrightarrow>
        py_slice data (head + ioffs - 16) (head + ioffs) \<noteq> expected_pattern"
      using r by (simp add: guard_differs_def)
    have pe: "payload_exceeds data head \<longleftrightarrow> head + ioffs + isize > length data"
      using r by (simp add: payload_exceeds_def)
    show ?thesis
    proof (cases "head + ioffs \<le> length data")
      case True
      with assms have "head + ioffs - 16 + 16 \<le> length data" by simp
      with False u nz co es gd pe show ?thesis
        by (auto simp: parse_entry_def Let_def)
    next
      case oob: False
      with assms have "\<not> head + ioffs - 16 + 16 \<le> length data" by simp
      with False u nz co es gd pe short [OF oob] oob show ?thesis
        by (auto simp: parse_entry_def Let_def)
    qed
  qed
qed

definition stop_condition :: "bytes \<Rightarrow> nat \<Rightarrow> bool" where
  "stop_condition data head \<longleftrightarrow>
     length data < head + 8 \<or> end_sentinel data head \<or> guard_differs data head \<or>
     payload_exceeds data head"

lemma parse_entry_number: "parse_entry data head nr = Inr info \<Longrightarrow> number info = Suc nr"
  by (auto simp: parse_entry_def Let_def split: if_splits option.splits prod.splits)

lemma entry_loop_spec:
  "\<exists>new. fst (entry_loop data head nr imgs) = imgs @ new \<and>
         (\<forall>i<length new. number (new ! i) = nr + i + 1) \<and>
         isl (parse_entry data (snd (entry_loop data head nr imgs)) 0) \<and>
         (new = [] \<longleftrightarrow> snd (entry_loop data head nr imgs) = head)"
proof (induction data head nr imgs rule: entry_loop.induct)
  case (1 data head nr imgs)
  show ?case
  proof (cases "parse_entry data head nr")
    case (Inl r)
    then have e: "entry_loop data head nr imgs = (imgs, head)"
      by (subst entry_loop.simps) simp
    from Inl have "isl (parse_entry data head 0)"
      using parse_entry_isl_indep [of data head 0 nr] by simp
    with e show ?thesis by simp
  next
    case (Inr info)
    let ?h = "head + 32 + img_size info + padding (img_size info)"
    have e: "entry_loop data head nr imgs = entry_loop data ?h (nr + 1) (imgs @ [info])"
      using Inr by (subst entry_loop.simps) simp
    from "1.IH" [OF Inr] obtain new where new:
      "fst (entry_loop data ?h (nr + 1) (imgs @ [info])) = (imgs @ [info]) @ new"
      "\<forall>i<length new. number (new ! i) = nr + 1 + i + 1"
      "isl (parse_entry data (snd (entry_loop data ?h (nr + 1) (imgs @ [info]))) 0)"
      by blast
    have "head < ?h" by simp
    also have "?h \<le> snd (entry_loop data ?h (nr + 1) (imgs @ [info]))"
      by (rule entry_loop_head_mono)
    finally have ne: "snd (entry_loop data head nr imgs) \<noteq> head" using e by simp
    have "\<forall>i<length (info # new). number ((info # new) ! i) = nr + i + 1"
      using new(2) parse_entry_number [OF Inr] by (auto simp: nth_Cons split: nat.splits)
    with new ne e show ?thesis by (intro exI [of _ "info # new"]) simp
  qed
qed

lemma entry_loop_stops_here_iff:
  "entry_loop data head nr imgs = (imgs, head) \<longleftrightarrow> isl (parse_entry data head nr)"
proof
  assume a: "entry_loop data head nr imgs = (imgs, head)"
  show "isl (parse_entry data head nr)"
    using entry_loop_spec [of data head nr imgs] a parse_entry_isl_indep [of data head nr 0]
    by auto
next
  assume "isl (parse_entry data head nr)"
  then obtain r where "parse_entry data head nr = Inl r" by (cases "parse_entry data head nr") auto
  then show "entry_loop data head nr imgs = (imgs, head)"
    by (subst entry_loop.simps) simp
qed

lemma detect_from_Some:
  "bytes_find asus_pattern data position = Some s \<Longrightarrow>
   detect_from data position =
     \<lparr> header_offset = s, header_end = s + 32,
       images = fst (entry_loop data (s + 32) 0 []),
       total_size = snd (entry_loop data (s + 32) 0 []) - s \<rparr>
     # detect_from data (snd (entry_loop data (s + 32) 0 []))"
  by (subst detect_from.simps) (simp add: Let_def)

text \<open>
  Claim C5 (as corrected). At a cursor \<open>head\<close> behind a signature the entry loop returns
  at that cursor, without raising, exactly when one of four conditions holds there: fewer
  than eight bytes remain (the size and offset fields cannot be read), the size or the
  relative offset reads as zero, the sixteen bytes before the payload differ from the
  validation constant, or the payload span runs past the end of the buffer. The cursor
  at which the loop finally stops satisfies one of them, the entries decoded before are
  kept, and the outer search goes on from that cursor.
\<close>

theorem entry_loop_stop_conditions:
  assumes "32 \<le> head"
  shows "(entry_loop data head nr imgs = (imgs, head) \<longleftrightarrow> stop_condition data head) \<and>
         stop_condition data (snd (entry_loop data head nr imgs)) \<and>
         take (length imgs) (fst (entry_loop data head nr imgs)) = imgs \<and>
         (bytes_find asus_pattern data position = Some s \<longrightarrow>
            detect_from data position =
              \<lparr> header_offset = s, header_end = s + 32,
                images = fst (entry_loop data (s + 32) 0 []),
                total_size = snd (entry_loop data (s + 32) 0 []) - s \<rparr>
              # detect_from data (snd (entry_loop data (s + 32) 0 [])))"
proof -
  from assms have h: "16 \<le> head" by simp
  have 1: "entry_loop data head nr imgs = (imgs, head) \<longleftrightarrow> stop_condition data head"
    unfolding entry_loop_stops_here_iff stop_condition_def
    by (rule parse_entry_stops_iff [OF h])
  let ?h' = "snd (entry_loop data head nr imgs)"
  from assms entry_loop_head_mono [of head data nr imgs] have h': "16 \<le> ?h'" by simp
  obtain new where new: "fst (entry_loop data head nr imgs) = imgs @ new"
      "isl (parse_entry data ?h' 0)"
    using entry_loop_spec [of data head nr imgs] by blast
  from new(2) have 2: "stop_condition data ?h'"
    unfolding stop_condition_def using parse_entry_stops_iff [OF h', of data 0] by simp
  from new(1) have 3: "take (length imgs) (fst (entry_loop data head nr imgs)) = imgs" by simp
  from 1 2 3 detect_from_Some show ?thesis by blast
qed

theorem entry_loop_stop_conditions_witness:
  "(entry_loop ex_data 32 0 [] = ([], 32) \<longleftrightarrow> stop_condition ex_data 32) \<and>
   stop_condition ex_data 108 \<and>
   fst (entry_loop ex_data 32 0 []) = [ex_image1, ex_image2] \<and>
   detect_from ex_data 0 = [ex_package]"
  using entry_loop_stop_conditions [of 32 ex_data 0 "[]" 0 0] ex_find0 ex_detect
  by (simp add: ex_entry_loop detect_asus_packer_format_def)

text \<open>
  A buffer that ends right behind the signature: the loop stops although no field can be
  read, so none of the three conditions of the claim holds.
\<close>

theorem truncated_cursor_counterexample:
  "entry_loop asus_pattern 32 0 [] = ([], 32) \<and>
   parse_entry asus_pattern 32 0 = Inl Truncated \<and>
   \<not> end_sentinel asus_pattern 32 \<and>
   \<not> guard_differs asus_pattern 32 \<and>
   \<not> payload_exceeds asus_pattern 32"
proof -
  have p: "parse_entry asus_pattern 32 0 = Inl Truncated"
    by (simp add: parse_entry_def asus_pattern_def)
  then have "entry_loop asus_pattern 32 0 [] = ([], 32)"
    by (subst entry_loop.simps) simp
  moreover have "read_u32 asus_pattern 32 = None" "read_u32 asus_pattern (32 + 4) = None"
    by (simp_all add: read_u32_def py_slice_def asus_pattern_def)
  ultimately show ?thesis
    using p by (simp add: end_sentinel_def guard_differs_def payload_exceeds_def)
qed

lemma detect_from_numbers:
  "pkg \<in> set (detect_from data position) \<Longrightarrow> i < length (images pkg) \<Longrightarrow>
   number (images pkg ! i) = i + 1"
proof (induction data position arbitrary: pkg rule: detect_from.induct)
  case (1 data position)
  show ?case
  proof (cases "bytes_find asus_pattern data position")
    case None
    with "1.prems" show ?thesis by (subst (asm) detect_from.simps) simp
  next
    case (Some s)
    let ?r = "entry_loop data (s + 32) 0 []"
    from "1.prems"(1) detect_from_Some [OF Some]
    consider "images pkg = fst ?r" | "pkg \<in> set (detect_from data (snd ?r))"
      by auto
    then show ?thesis
    proof cases
      case 1
      obtain new where "fst ?r = [] @ new" "\<forall>i<length new. number (new ! i) = 0 + i + 1"
        using entry_loop_spec [of data "s + 32" 0 "[]"] by blast
      with 1 "1.prems"(2) show ?thesis by simp
    next
      case 2
      from "1.IH" [OF Some refl refl 2 "1.prems"(2)] show ?thesis .
    qed
  qed
qed

section \<open>Format A: what the structural rebuild emits\<close>

lemma le32_digits:
  "n mod 256 + 256 * (n div 256 mod 256) + 65536 * (n div 65536 mod 256)
     + 16777216 * (n div 16777216) = (n::nat)"
proof -
  define q1 q2 q3 r0 r1 r2 where "q1 = n div 256" and "q2 = q1 div 256" and "q3 = q2 div 256"
    and "r0 = n mod 256" and "r1 = q1 mod 256" and "r2 = q2 mod 256"
  have a: "n = 256 * q1 + r0" "q1 = 256 * q2 + r1" "q2 = 256 * q3 + r2"
    by (simp_all add: q1_def q2_def q3_def r0_def r1_def r2_def)
  have d: "q2 = n div 65536" "q3 = n div 16777216"
    by (simp_all add: q1_def q2_def q3_def div_mult2_eq [symmetric])
  from a have "r0 + 256 * r1 + 65536 * r2 + 16777216 * q3 = n" by linarith
  then show ?thesis by (simp add: d [symmetric] r0_def r1_def r2_def q1_def [symmetric])
qed

lemma pack_le32_Inr:
  assumes "pack_le32 n = Inr bs"
  shows "length bs = 4" and "unpack_le32 bs = Some n" and "n < 2 ^ 32"
proof -
  from assms have n: "n < 2 ^ 32"
    and bs: "bs = [of_nat n, of_nat (n div 256), of_nat (n div 65536), of_nat (n div 16777216)]"
    by (auto simp: pack_le32_def split: if_splits)
  show "length bs = 4" by (simp add: bs)
  show "n < 2 ^ 32" by (rule n)
  show "unpack_le32 bs = Some n"
    using n le32_digits [of n] by (simp add: bs unat_of_nat)
qed

lemma pack_le32_total: "n < 2 ^ 32 \<Longrightarrow> \<exists>bs. pack_le32 n = Inr bs"
  by (simp add: pack_le32_def)

lemma length_emitted_pattern: "length (emitted_pattern data img) = 24"
  by (simp add: emitted_pattern_def py_slice_def default_pattern_first_def
      default_pattern_other_def)

text \<open>
  The layout the rebuilt buffer is checked against, with the number of padding bytes as
  the claim states it, \<open>(4 - s mod 4) mod 4\<close>, and not as the program computes it: a
  record is 32 bytes of metadata that begin with the size field, the payload of length
  \<open>s\<close>, and that many zero bytes; a package is a verbatim gap, the verbatim header and the
  records of its entries, nothing in between.
\<close>

definition padded_record :: "modified_dict \<Rightarrow> image_info \<Rightarrow> bytes \<Rightarrow> bool" where
  "padded_record modified img r \<longleftrightarrow>
     (let payload = emitted_payload modified img; s = length payload in
      length r = 32 + s + (4 - s mod 4) mod 4 \<and>
      unpack_le32 (take 4 r) = Some s \<and>
      py_slice r 32 (32 + s) = payload \<and>
      drop (32 + s) r = replicate ((4 - s mod 4) mod 4) 0)"

definition package_chunk ::
  "bytes \<Rightarrow> modified_dict \<Rightarrow> package_info \<Rightarrow> bytes \<Rightarrow> bool" where
  "package_chunk data modified pkg chunk \<longleftrightarrow>
     (\<exists>gap recs.
        chunk = gap @ py_slice data (header_offset pkg) (header_end pkg) @ concat recs \<and>
        list_all2 (padded_record modified) (sort_key number (images pkg)) recs)"

lemma emit_image_Inr:
  assumes "emit_image data modified img = Inr bs"
  shows "\<exists>meta. length meta = 32 \<and>
           unpack_le32 (take 4 meta) = Some (length (emitted_payload modified img)) \<and>
           bs = meta @ emitted_payload modified img
                @ replicate (padding (length (emitted_payload modified img))) 0"
proof -
  let ?p = "emitted_payload modified img"
  from assms obtain sb ob where sb: "pack_le32 (length ?p) = Inr sb"
    and ob: "pack_le32 0x20 = Inr ob"
    and bs: "bs = sb @ ob @ emitted_pattern data img @ ?p @ replicate (padding (length ?p)) 0"
    by (auto simp: emit_image_def Let_def split: sum.splits)
  from pack_le32_Inr [OF sb] pack_le32_Inr(1) [OF ob]
  have "length (sb @ ob @ emitted_pattern data img) = 32"
    "unpack_le32 (take 4 (sb @ ob @ emitted_pattern data img)) = Some (length ?p)"
    by (simp_all add: length_emitted_pattern)
  with bs show ?thesis by (intro exI [of _ "sb @ ob @ emitted_pattern data img"]) simp
qed

lemma emit_image_padded_record:
  assumes "emit_image data modified img = Inr bs"
  shows "padded_record modified img bs"
proof -
  from emit_image_Inr [OF assms] obtain meta where "length meta = 32"
    "unpack_le32 (take 4 meta) = Some (length (emitted_payload modified img))"
    "bs = meta @ emitted_payload modified img
          @ replicate (padding (length (emitted_payload modified img))) 0"
    by blast
  then show ?thesis by (simp add: padded_record_def Let_def py_slice_def padding_def)
qed

lemma emit_images_records:
  "emit_images data modified imgs nd = Inr out \<Longrightarrow>
   \<exists>recs. out = nd @ concat recs \<and> list_all2 (\<lambda>img r. emit_image data modified img = Inr r) imgs recs"
proof (induction imgs arbitrary: nd)
  case Nil
  then show ?case by simp
next
  case (Cons img imgs)
  from Cons.prems obtain bs where bs: "emit_image data modified img = Inr bs"
    and rest: "emit_images data modified imgs (nd @ bs) = Inr out"
    by (auto split: sum.splits)
  from Cons.IH [OF rest] obtain recs where "out = (nd @ bs) @ concat recs"
    "list_all2 (\<lambda>img r. emit_image data modified img = Inr r) imgs recs" by blast
  with bs show ?case by (intro exI [of _ "bs # recs"]) simp
qed

lemma rebuild_packages_chunks:
  "rebuild_packages data modified pkgs nd cp = Inr (out, cp') \<Longrightarrow>
   \<exists>chunks. out = nd @ concat chunks \<and> list_all2 (package_chunk data modified) pkgs chunks"
proof (induction pkgs arbitrary: nd cp)
  case Nil
  then show ?case by simp
next
  case (Cons pkg pkgs)
  let ?gap = "if cp < header_offset pkg then py_slice data cp (header_offset pkg) else []"
  let ?hdr = "py_slice data (header_offset pkg) (header_end pkg)"
  from Cons.prems obtain bs where
    bs: "emit_images data modified (sort_key number (images pkg)) (nd @ ?gap @ ?hdr) = Inr bs"
    and rest: "rebuild_packages data modified pkgs bs (header_offset pkg + total_size pkg)
               = Inr (out, cp')"
    by (auto simp: Let_def split: sum.splits)
  from emit_images_records [OF bs] obtain recs where recs: "bs = (nd @ ?gap @ ?hdr) @ concat recs"
    "list_all2 (\<lambda>img r. emit_image data modified img = Inr r) (sort_key number (images pkg)) recs"
    by blast
  from recs(2) have "list_all2 (padded_record modified) (sort_key number (images pkg)) recs"
    by (rule list_all2_mono) (rule emit_image_padded_record)
  then have chunk: "package_chunk data modified pkg (?gap @ ?hdr @ concat recs)"
    unfolding package_chunk_def by blast
  from Cons.IH [OF rest] obtain chunks where "out = bs @ concat chunks"
    "list_all2 (package_chunk data modified) pkgs chunks" by blast
  with recs(1) chunk show ?case
    by (intro exI [of _ "(?gap @ ?hdr @ concat recs) # chunks"]) simp
qed

text \<open>
  Claim C6. A buffer produced by the format-A structural rebuild is a sequence of
  package chunks and a verbatim tail; inside a chunk the records follow the header one
  after the other, and each record is its 32 bytes of metadata, the emitted payload of
  length \<open>s\<close> and exactly \<open>(4 - s mod 4) mod 4\<close> zero bytes.
\<close>

theorem padding_after_every_payload:
  assumes "structure_preserving_rebuild data pkgs modified = Inr out"
  shows "\<exists>chunks tail. out = concat chunks @ tail \<and>
           list_all2 (package_chunk data modified) pkgs chunks"
proof -
  from assms obtain nb cp where r: "rebuild_packages data modified pkgs [] 0 = Inr (nb, cp)"
    and out: "out = (if cp < length data then nb @ drop cp data else nb)"
    by (auto simp: structure_preserving_rebuild_def split: sum.splits)
  from rebuild_packages_chunks [OF r] obtain chunks where
    c: "nb = concat chunks" "list_all2 (package_chunk data modified) pkgs chunks" by auto
  show ?thesis
  proof (cases "cp < length data")
    case True
    with out c show ?thesis by (intro exI [of _ chunks] exI [of _ "drop cp data"]) simp
  next
    case False
    with out c show ?thesis by (intro exI [of _ chunks] exI [of _ "[]"]) simp
  qed
qed

section \<open>Format A: rebuilds of the two-entry buffer, evaluated\<close>

definition ex_grow :: modified_dict where
  "ex_grow = [(64, \<lparr> original_image = ex_image1, new_data = [1, 2, 3, 4, 5], new_size = 5,
                       size_diff = 1, package_idx = 1 \<rparr>)]"

definition ex_rebuilt :: bytes where
  "ex_rebuilt = asus_pattern
     @ [5, 0, 0, 0] @ [0x20, 0, 0, 0] @ ex_pattern1 @ [1, 2, 3, 4, 5] @ [0, 0, 0]
     @ [5, 0, 0, 0] @ [0x20, 0, 0, 0] @ ex_pattern2 @ [5, 6, 7, 8, 9] @ [0, 0, 0]"

definition ex_swap_files :: pkg_dir where
  "ex_swap_files name =
     (if name = ustr ''image_nr1_off0x00000040.img'' then Some [1, 2, 3, 4, 5]
      else if name = ustr ''image_nr2_off0x00000064.img'' then Some [5, 6, 7, 8]
      else None)"

definition ex_swap_dir :: extracted_dir where
  "ex_swap_dir pkg_idx = (if pkg_idx = 1 then Some ex_swap_files else None)"

definition ex_swap :: modified_dict where
  "ex_swap =
     [(64, \<lparr> original_image = ex_image1, new_data = [1, 2, 3, 4, 5], new_size = 5,
              size_diff = 1, package_idx = 1 \<rparr>),
      (100, \<lparr> original_image = ex_image2, new_data = [5, 6, 7, 8], new_size = 4,
               size_diff = - 1, package_idx = 1 \<rparr>)]"

lemma replicate_2: "replicate 2 x = [x, x]"
  by (simp add: numeral_2_eq_2)

lemma replicate_3: "replicate 3 x = [x, x, x]"
  by (simp add: numeral_3_eq_3)

lemma replicate_6: "replicate 6 x = [x, x, x, x, x, x]"
  by (simp add: numeral_eq_Suc)

lemma ex_numbers: "number ex_image1 = 1" "number ex_image2 = 2"
  by (simp_all add: ex_image1_def ex_image2_def)

lemma ex_filename1: "image_filename (Suc 0) 64 ''img'' = ustr ''image_nr1_off0x00000040.img''"
  by (simp add: image_filename_def str_dec_def str_hex08_def to_digits.simps digit_char_def
      replicate_6)

lemma ex_filename2: "image_filename 2 100 ''img'' = ustr ''image_nr2_off0x00000064.img''"
  by (simp add: image_filename_def str_dec_def str_hex08_def to_digits.simps digit_char_def
      replicate_6)

lemma ex_matches1: "matches_image_pattern (ustr ''image_nr1_off0x00000040.img'')"
  by (simp add: name_defs)

lemma ex_matches2: "matches_image_pattern (ustr ''image_nr2_off0x00000064.img'')"
  by (simp add: name_defs)

lemma ex_emit1: "emit_image ex_data ex_grow ex_image1 =
    Inr ([5, 0, 0, 0] @ [0x20, 0, 0, 0] @ ex_pattern1 @ [1, 2, 3, 4, 5] @ [0, 0, 0])"
  by (simp add: emit_image_def emitted_payload_def ex_grow_def ex_image1_def pack_le32_def
      emitted_pattern_def ex_pattern1_def padding_def replicate_3)

lemma ex_emit2: "emit_image ex_data ex_grow ex_image2 =
    Inr ([5, 0, 0, 0] @ [0x20, 0, 0, 0] @ ex_pattern2 @ [5, 6, 7, 8, 9] @ [0, 0, 0])"
  by (simp add: emit_image_def emitted_payload_def ex_grow_def ex_image2_def pack_le32_def
      emitted_pattern_def ex_pattern2_def padding_def replicate_3)

lemma ex_sorted: "sort_key number [ex_image1, ex_image2] = [ex_image1, ex_image2]"
  by (simp add: ex_numbers)

lemma ex_structural: "structure_preserving_rebuild ex_data [ex_package] ex_grow = Inr ex_rebuilt"
proof -
  have h: "py_slice ex_data 0 32 = asus_pattern"
    by (simp add: py_slice_def ex_data_def asus_pattern_def)
  have l: "length ex_data = 108"
    by (simp add: ex_defs)
  show ?thesis
    by (simp add: structure_preserving_rebuild_def ex_package_def ex_numbers ex_emit1 ex_emit2
        h l ex_rebuilt_def)
qed

definition ex_state1 :: detect_state where
  "ex_state1 =
     \<lparr> modified_images = [(64, \<lparr> original_image = ex_image1, new_data = [1, 2, 3, 4, 5],
          new_size = 5, size_diff = 1, package_idx = 1 \<rparr>)],
       unchanged_count = 0, modified_count = 1 \<rparr>"

definition ex_state2 :: detect_state where
  "ex_state2 = \<lparr> modified_images = ex_swap, unchanged_count = 0, modified_count = 2 \<rparr>"

lemma ex_detect_swap:
  "detect_packages ex_swap_dir 1 [ex_package] initial_detect_state = ex_state2"
proof -
  have d1: "detect_image ex_swap_files 1 initial_detect_state ex_image1 = ex_state1"
    by (simp add: detect_image_def Let_def ex_image1_def ex_filename1 ex_matches1
        ex_swap_files_def validate_image_replacement_def detect_asus_image_type_def
        initial_detect_state_def ex_state1_def)
  have d2: "detect_image ex_swap_files 1 ex_state1 ex_image2 = ex_state2"
    by (simp add: detect_image_def Let_def ex_image2_def ex_filename2 ex_matches2
        ex_swap_files_def validate_image_replacement_def detect_asus_image_type_def
        ex_swap_def ex_state1_def ex_state2_def)
  have dir: "ex_swap_dir 1 = Some ex_swap_files" by (simp add: ex_swap_dir_def)
  have imgs: "images ex_package = [ex_image1, ex_image2]" by (simp add: ex_package_def)
  show ?thesis
    by (simp only: detect_packages.simps dir option.case imgs foldl.simps d1 d2)
qed

lemma ex_direct: "direct_replace_images ex_data ex_swap = ex_data"
  by (simp add: direct_replace_images_def ex_swap_def replace_step_def Let_def
      ex_image1_def ex_image2_def)

definition ex_swapped :: bytes where
  "ex_swapped = asus_pattern
     @ [5, 0, 0, 0] @ [0x20, 0, 0, 0] @ ex_pattern1 @ [1, 2, 3, 4, 5] @ [0, 0, 0]
     @ [4, 0, 0, 0] @ [0x20, 0, 0, 0] @ ex_pattern2 @ [5, 6, 7, 8]"

lemma ex_structural_swap:
  "structure_preserving_rebuild ex_data [ex_package] ex_swap = Inr ex_swapped"
proof -
  have h: "py_slice ex_data 0 32 = asus_pattern"
    by (simp add: py_slice_def ex_data_def asus_pattern_def)
  have l: "length ex_data = 108"
    by (simp add: ex_defs)
  have e1: "emit_image ex_data ex_swap ex_image1 =
      Inr ([5, 0, 0, 0] @ [0x20, 0, 0, 0] @ ex_pattern1 @ [1, 2, 3, 4, 5] @ [0, 0, 0])"
    by (simp add: emit_image_def emitted_payload_def ex_swap_def ex_image1_def pack_le32_def
        emitted_pattern_def ex_pattern1_def padding_def replicate_3)
  have e2: "emit_image ex_data ex_swap ex_image2 =
      Inr ([4, 0, 0, 0] @ [0x20, 0, 0, 0] @ ex_pattern2 @ [5, 6, 7, 8])"
    by (simp add: emit_image_def emitted_payload_def ex_swap_def ex_image2_def pack_le32_def
        emitted_pattern_def ex_pattern2_def padding_def)
  show ?thesis
    by (simp add: structure_preserving_rebuild_def ex_package_def ex_numbers e1 e2
        h l ex_swapped_def)
qed

text \<open>
  Replacements of 6 and 7 bytes: the rebuilt buffer has two zero bytes behind the first
  payload and one behind the second.
\<close>

definition ex_pads :: modified_dict where
  "ex_pads =
     [(64, \<lparr> original_image = ex_image1, new_data = [1, 2, 3, 4, 5, 6], new_size = 6,
              size_diff = 2, package_idx = 1 \<rparr>),
      (100, \<lparr> original_image = ex_image2, new_data = [1, 2, 3, 4, 5, 6, 7], new_size = 7,
               size_diff = 2, package_idx = 1 \<rparr>)]"

definition ex_padded :: bytes where
  "ex_padded = asus_pattern
     @ [6, 0, 0, 0] @ [0x20, 0, 0, 0] @ ex_pattern1 @ [1, 2, 3, 4, 5, 6] @ [0, 0]
     @ [7, 0, 0, 0] @ [0x20, 0, 0, 0] @ ex_pattern2 @ [1, 2, 3, 4, 5, 6, 7] @ [0]"

lemma ex_structural_pads:
  "structure_preserving_rebuild ex_data [ex_package] ex_pads = Inr ex_padded"
proof -
  have h: "py_slice ex_data 0 32 = asus_pattern"
    by (simp add: py_slice_def ex_data_def asus_pattern_def)
  have l: "length ex_data = 108"
    by (simp add: ex_defs)
  have e1: "emit_image ex_data ex_pads ex_image1 =
      Inr ([6, 0, 0, 0] @ [0x20, 0, 0, 0] @ ex_pattern1 @ [1, 2, 3, 4, 5, 6] @ [0, 0])"
    by (simp add: emit_image_def emitted_payload_def ex_pads_def ex_image1_def pack_le32_def
        emitted_pattern_def ex_pattern1_def padding_def replicate_2)
  have e2: "emit_image ex_data ex_pads ex_image2 =
      Inr ([7, 0, 0, 0] @ [0x20, 0, 0, 0] @ ex_pattern2 @ [1, 2, 3, 4, 5, 6, 7] @ [0])"
    by (simp add: emit_image_def emitted_payload_def ex_pads_def ex_image2_def pack_le32_def
        emitted_pattern_def ex_pattern2_def padding_def)
  show ?thesis
    by (simp add: structure_preserving_rebuild_def ex_package_def ex_numbers e1 e2
        h l ex_padded_def)
qed

text \<open>
  Claim C1 at a failing input: two entries are replaced, one by a payload one byte longer
  and one by a payload one byte shorter. Both are classified as modified, the deltas sum
  to zero, and the rebuild takes the direct replacement, which skips both: the output is
  the input, while the structural rebuild of the same replacements differs from it.
\<close>

theorem zero_sum_drops_replacements:
  "map (size_diff \<circ> snd) ex_swap = [1, - 1] \<and>
   total_size_change ex_swap = 0 \<and>
   detect_packages ex_swap_dir 1 (detect_asus_packer_format ex_data) initial_detect_state =
     \<lparr> modified_images = ex_swap, unchanged_count = 0, modified_count = 2 \<rparr> \<and>
   rebuild_asus_packer_preserve_structure ex_data (Some ex_swap_dir) = Inr (Some ex_data) \<and>
   structure_preserving_rebuild ex_data (detect_asus_packer_format ex_data) ex_swap
     = Inr ex_swapped \<and>
   ex_swapped \<noteq> ex_data"
proof -
  have 1: "map (size_diff \<circ> snd) ex_swap = [1, - 1]" by (simp add: ex_swap_def)
  then have 2: "total_size_change ex_swap = 0" by (simp add: total_size_change_def)
  have 3: "detect_packages ex_swap_dir 1 (detect_asus_packer_format ex_data)
      initial_detect_state =
      \<lparr> modified_images = ex_swap, unchanged_count = 0, modified_count = 2 \<rparr>"
    by (simp only: ex_detect ex_detect_swap ex_state2_def)
  have "rebuild_asus_packer_preserve_structure ex_data (Some ex_swap_dir) =
      Inr (Some (direct_replace_images ex_data ex_swap))"
    unfolding rebuild_asus_packer_preserve_structure_def option.case Let_def 3
    by (simp add: 2 ex_detect)
  then have 4: "rebuild_asus_packer_preserve_structure ex_data (Some ex_swap_dir) =
      Inr (Some ex_data)"
    by (simp only: ex_direct)
  have 5: "structure_preserving_rebuild ex_data (detect_asus_packer_format ex_data) ex_swap
      = Inr ex_swapped"
    by (simp only: ex_detect ex_structural_swap)
  have "ex_swapped ! 32 \<noteq> ex_data ! 32" by (simp add: ex_swapped_def ex_defs)
  then have 6: "ex_swapped \<noteq> ex_data" by auto
  from 1 2 3 4 5 6 show ?thesis by (intro conjI)
qed

section \<open>Format A: positions in the rebuilt buffer\<close>

definition record_len :: "modified_dict \<Rightarrow> image_info \<Rightarrow> nat" where
  "record_len modified img =
     32 + length (emitted_payload modified img) + padding (length (emitted_payload modified img))"

definition record_start :: "modified_dict \<Rightarrow> image_info list \<Rightarrow> nat \<Rightarrow> nat" where
  "record_start modified imgs i = sum_list (map (record_len modified) (take i imgs))"

lemma record_start_0: "record_start modified imgs 0 = 0"
  by (simp add: record_start_def)

lemma record_start_Suc:
  "i < length imgs \<Longrightarrow>
   record_start modified imgs (Suc i) = record_start modified imgs i + record_len modified (imgs ! i)"
  by (simp add: record_start_def take_Suc_conv_app_nth)

lemma record_start_Cons:
  "record_start modified (img # imgs) (Suc i) = record_len modified img + record_start modified imgs i"
  by (simp add: record_start_def)

lemma emit_images_prefix:
  "emit_images data modified imgs nd = Inr out \<Longrightarrow> take (length nd) out = nd"
  using emit_images_records [of data modified imgs nd out] by auto

lemma emit_image_length:
  "emit_image data modified img = Inr bs \<Longrightarrow> length bs = record_len modified img"
  using emit_image_Inr [of data modified img bs] by (auto simp: record_len_def)

lemma py_slice_prefix:
  "take n out = pre \<Longrightarrow> b \<le> length pre \<Longrightarrow> py_slice out a b = py_slice pre a b"
proof -
  assume t: "take n out = pre" and b: "b \<le> length pre"
  then have "out = pre @ drop n out" by (metis append_take_drop_id)
  then have "py_slice out a b = py_slice (pre @ drop n out) a b" by simp
  also have "\<dots> = py_slice pre a b" using b by (simp add: py_slice_def)
  finally show ?thesis .
qed

lemma emit_images_positions:
  assumes "emit_images data modified imgs nd = Inr out" and "i < length imgs"
  shows "unpack_le32 (py_slice out (length nd + record_start modified imgs i)
                                   (length nd + record_start modified imgs i + 4))
           = Some (length (emitted_payload modified (imgs ! i))) \<and>
         py_slice out (length nd + record_start modified imgs i + 32)
                      (length nd + record_start modified imgs i + 32
                        + length (emitted_payload modified (imgs ! i)))
           = emitted_payload modified (imgs ! i) \<and>
         length nd + record_start modified imgs i + record_len modified (imgs ! i) \<le> length out"
  using assms
proof (induction imgs arbitrary: nd i)
  case Nil
  then show ?case by simp
next
  case (Cons img imgs)
  from Cons.prems(1) obtain bs where bs: "emit_image data modified img = Inr bs"
    and rest: "emit_images data modified imgs (nd @ bs) = Inr out"
    by (auto split: sum.splits)
  note len = emit_image_length [OF bs]
  show ?case
  proof (cases i)
    case 0
    let ?p = "emitted_payload modified img"
    from emit_image_Inr [OF bs] obtain meta where meta: "length meta = 32"
      "unpack_le32 (take 4 meta) = Some (length ?p)"
      "bs = meta @ ?p @ replicate (padding (length ?p)) 0" by blast
    from emit_images_prefix [OF rest] have pre: "take (length (nd @ bs)) out = nd @ bs" .
    then have le: "length (nd @ bs) \<le> length out"
      by (metis length_take min.cobounded1)
    have 1: "py_slice out (length nd) (length nd + 4) = take 4 meta"
      using py_slice_prefix [OF pre, of "length nd + 4" "length nd"] meta(1,3)
      by (simp add: py_slice_def)
    have 2: "py_slice out (length nd + 32) (length nd + 32 + length ?p) = ?p"
      using py_slice_prefix [OF pre, of "length nd + 32 + length ?p" "length nd + 32"] meta(1,3)
      by (simp add: py_slice_def)
    from 0 1 2 meta(2) le len show ?thesis by (simp add: record_start_0)
  next
    case (Suc j)
    with Cons.prems(2) have j: "j < length imgs" by simp
    from Cons.IH [OF rest j] Suc len show ?thesis
      by (simp add: record_start_Cons add.assoc)
  qed
qed

lemma rebuild_packages_prefix:
  "rebuild_packages data modified pkgs nd cp = Inr (out, cp') \<Longrightarrow> take (length nd) out = nd"
  using rebuild_packages_chunks [of data modified pkgs nd cp out cp'] by auto

lemma rebuild_packages_nth:
  assumes "rebuild_packages data modified pkgs nd cp = Inr (out, cp')" and "k < length pkgs"
  shows "\<exists>nd' out'. emit_images data modified (sort_key number (images (pkgs ! k))) nd' = Inr out'
           \<and> take (length out') out = out'"
  using assms
proof (induction pkgs arbitrary: nd cp k)
  case Nil
  then show ?case by simp
next
  case (Cons pkg pkgs)
  let ?gap = "if cp < header_offset pkg then py_slice data cp (header_offset pkg) else []"
  let ?hdr = "py_slice data (header_offset pkg) (header_end pkg)"
  from Cons.prems(1) obtain bs where
    bs: "emit_images data modified (sort_key number (images pkg)) (nd @ ?gap @ ?hdr) = Inr bs"
    and rest: "rebuild_packages data modified pkgs bs (header_offset pkg + total_size pkg)
               = Inr (out, cp')"
    by (auto simp: Let_def split: sum.splits)
  show ?case
  proof (cases k)
    case 0
    from rebuild_packages_prefix [OF rest] bs 0 show ?thesis by auto
  next
    case (Suc j)
    with Cons.prems(2) have "j < length pkgs" by simp
    from Cons.IH [OF rest this] Suc show ?thesis by simp
  qed
qed

lemma detect_from_sorted:
  assumes "pkg \<in> set (detect_from data position)"
  shows "sort_key number (images pkg) = images pkg"
proof -
  have "sorted (map number (images pkg))"
    unfolding sorted_iff_nth_mono
  proof (intro allI impI)
    fix i j assume "i \<le> j" "j < length (map number (images pkg))"
    then show "map number (images pkg) ! i \<le> map number (images pkg) ! j"
      using detect_from_numbers [OF assms, of i] detect_from_numbers [OF assms, of j] by simp
  qed
  then show ?thesis by (rule sort_key_id_if_sorted)
qed

text \<open>
  Three rebuilds of the two-entry buffer, with payloads of 5 and 5, of 5 and 4, and of 6
  and 7 bytes: 3 and 3, 3 and 0, and 2 and 1 zero bytes follow them.
\<close>

theorem padding_after_every_payload_witness:
  "structure_preserving_rebuild ex_data [ex_package] ex_grow = Inr ex_rebuilt \<and>
   (\<exists>chunks tail. ex_rebuilt = concat chunks @ tail \<and>
      list_all2 (package_chunk ex_data ex_grow) [ex_package] chunks) \<and>
   structure_preserving_rebuild ex_data [ex_package] ex_swap = Inr ex_swapped \<and>
   (\<exists>chunks tail. ex_swapped = concat chunks @ tail \<and>
      list_all2 (package_chunk ex_data ex_swap) [ex_package] chunks) \<and>
   structure_preserving_rebuild ex_data [ex_package] ex_pads = Inr ex_padded \<and>
   (\<exists>chunks tail. ex_padded = concat chunks @ tail \<and>
      list_all2 (package_chunk ex_data ex_pads) [ex_package] chunks)"
  using padding_after_every_payload [OF ex_structural]
    padding_after_every_payload [OF ex_structural_swap]
    padding_after_every_payload [OF ex_structural_pads]
    ex_structural ex_structural_swap ex_structural_pads
  by simp

section \<open>Format B: the indices the analyzer records\<close>

lemma find_msi_entries_from_index:
  assumes "\<forall>i<length entries. index (entries ! i) = i"
  shows "\<forall>i<length (find_msi_entries_from sig data off entries).
           index (find_msi_entries_from sig data off entries ! i) = i"
  using assms
proof (induction sig data off entries rule: find_msi_entries_from.induct)
  case (1 sig data off entries)
  show ?case
  proof (cases "off + HEADER_SIZE < length data")
    case False
    with "1.prems" show ?thesis by (subst (1 2) find_msi_entries_from.simps) simp
  next
    case True
    note inb = True
    show ?thesis
    proof (cases "py_slice data off (off + 4) = sig")
      case False
      with inb "1.IH"(4) [OF inb False "1.prems"] show ?thesis
        by (subst (1 2) find_msi_entries_from.simps) simp
    next
      case True
      note m = True
      show ?thesis
      proof (cases "parse_msi_header data off")
        case (Inl e)
        with inb m "1.IH"(1) [OF inb m Inl "1.prems"] show ?thesis
          by (subst (1 2) find_msi_entries_from.simps) simp
      next
        case (Inr hdr)
        show ?thesis
        proof (cases "off + HEADER_SIZE + image_size hdr \<le> length data")
          case True
          let ?e = "\<lparr> index = length entries, offset = off, header = hdr,
              image_data_offset = off + HEADER_SIZE, image_data_size = image_size hdr,
              image_type = msi_detect_image_type
                (py_slice data (off + HEADER_SIZE) (off + HEADER_SIZE + image_size hdr)) \<rparr>"
          have "\<forall>i<length (entries @ [?e]). index ((entries @ [?e]) ! i) = i"
            using "1.prems" by (auto simp: nth_append)
          from "1.IH"(2) [OF inb m Inr refl refl True this] inb m Inr True show ?thesis
            by (subst (1 2) find_msi_entries_from.simps) (simp add: Let_def)
        next
          case False
          from "1.IH"(3) [OF inb m Inr refl refl False "1.prems"] inb m Inr False show ?thesis
            by (subst (1 2) find_msi_entries_from.simps) (simp add: Let_def)
        qed
      qed
    qed
  qed
qed

text \<open>
  With the five-byte signature the instance carries, the four-byte slice the loop compares
  with it never matches: the analyzer finds no entry, whatever the buffer.
\<close>

lemma find_msi_entries_empty: "find_msi_entries data = []"
proof -
  have "find_msi_entries_from MSI_SIGNATURE data off [] = []" for off
  proof (induction "length data - off" arbitrary: off rule: less_induct)
    case less
    have ne: "py_slice data off (off + 4) \<noteq> MSI_SIGNATURE"
    proof
      assume "py_slice data off (off + 4) = MSI_SIGNATURE"
      then have "length (py_slice data off (off + 4)) = 5" by (simp add: MSI_SIGNATURE_def)
      then show False by (simp add: py_slice_def)
    qed
    show ?case
    proof (cases "off + HEADER_SIZE < length data")
      case True
      then have "length data - (off + 1) < length data - off" by simp
      from less [OF this] True ne show ?thesis
        by (subst find_msi_entries_from.simps) simp
    next
      case False
      then show ?thesis by (subst find_msi_entries_from.simps) simp
    qed
  qed
  then show ?thesis by (simp add: find_msi_entries_def)
qed

section \<open>Format B: the header builders\<close>

lemma init_attrs:
  "getattr MSIImageRepacker_init ''HEADER_SIZE'' = Inr (IntAttr 12)"
  "getattr MSIImageRepacker_init ''MSI_SIGNATURE'' = Inr (BytesAttr MSI_SIGNATURE)"
  "getattr MSIImageRepacker_init ''msi_signature'' = Inl AttributeError"
  by (simp_all add: getattr_def MSIImageRepacker_init_def)

lemma header_from_structure_raises:
  "create_msi_header_from_structure MSIImageRepacker_init info n = Inl AttributeError"
  by (simp add: create_msi_header_from_structure_def get_int_def get_bytes_def ebind_def
      init_attrs)

lemma write_entries_structure_fails:
  assumes "i < length entries"
  shows "write_entries MSIImageRepacker_init (Some entries) i (f # rest) out
           = (Some AttributeError, out)"
  using assms by (cases f) (simp add: header_from_structure_raises)

text \<open>
  The files the structure-preserving repack collects, described on the directory: the
  regular files whose names match the pattern, those ending in \<open>.txt\<close> left out.
\<close>

definition is_image_file :: "ustring \<times> dir_node \<Rightarrow> bool" where
  "is_image_file e \<longleftrightarrow>
     (case snd e of RegularFile content \<Rightarrow> matches_image_pattern (fst e) | Directory \<Rightarrow> False)"

lemma collect_image_files_eq:
  "map fst (collect_image_files dir) =
     map fst (filter (\<lambda>e. is_image_file e \<and> \<not> ends_with (ustr ''.txt'') (fst e)) (listing dir))"
proof -
  have "map fst (concat (map (\<lambda>(filename, node).
        if starts_with (ustr ''image_nr'') filename \<and> \<not> ends_with (ustr ''.txt'') filename \<and>
           matches_image_pattern filename
        then (case node of RegularFile content \<Rightarrow> [(filename, content)] | Directory \<Rightarrow> [])
        else []) xs))
     = map fst (filter (\<lambda>e. is_image_file e \<and> \<not> ends_with (ustr ''.txt'') (fst e)) xs)"
    for xs :: "(ustring \<times> dir_node) list"
    by (induction xs)
      (auto simp: is_image_file_def matches_starts_with split: dir_node.splits)
  then show ?thesis by (simp add: collect_image_files_def)
qed

lemma length_collect_image_files:
  "length (collect_image_files dir) =
     length (filter (\<lambda>e. is_image_file e \<and> \<not> ends_with (ustr ''.txt'') (fst e)) (listing dir))"
  using arg_cong [OF collect_image_files_eq [of dir], of length] by simp

lemma length_collect_image_files_le:
  "length (collect_image_files dir) \<le> length (filter is_image_file (listing dir))"
proof -
  have "length (filter (\<lambda>e. is_image_file e \<and> \<not> ends_with (ustr ''.txt'') (fst e)) xs)
      \<le> length (filter is_image_file xs)" for xs :: "(ustring \<times> dir_node) list"
    by (induction xs) auto
  then show ?thesis by (simp add: length_collect_image_files)
qed

text \<open>
  Claim C9. On an instance as \<open>__init__\<close> leaves it, the header builder that uses the
  preserved structure information raises \<open>AttributeError\<close> for every input: it reads
  \<open>self.msi_signature\<close>, and only \<open>MSI_SIGNATURE\<close> was assigned. So the binary creation
  with at least one structure entry and one image file returns failure, leaving the
  output file it opened empty, and so does the structure-preserving repack that reaches
  it with an analysis of at least one entry.
\<close>

theorem structure_header_builder_always_raises:
  "create_msi_header_from_structure MSIImageRepacker_init info n = Inl AttributeError \<and>
   (image_files \<noteq> [] \<longrightarrow> entries \<noteq> [] \<longrightarrow>
      create_msi_binary_with_structure MSIImageRepacker_init image_files (Some entries)
        = (False, [])) \<and>
   (2 \<le> length (collect_image_files dir) \<longrightarrow> analysis \<noteq> [] \<longrightarrow>
      repack_with_structure_preservation MSIImageRepacker_init dir (Some analysis) modified
        = (False, Some []))"
proof -
  have b: "create_msi_binary_with_structure MSIImageRepacker_init fs (Some es) = (False, [])"
    if "fs \<noteq> []" "es \<noteq> []" for fs es
  proof -
    from that obtain f rest where "fs = f # rest" by (cases fs) auto
    with that(2) show ?thesis
      using write_entries_structure_fails [of 0 es f rest "[]"]
      by (simp add: create_msi_binary_with_structure_def)
  qed
  have c: "repack_with_structure_preservation MSIImageRepacker_init dir (Some analysis) modified
        = (False, Some [])" if "2 \<le> length (collect_image_files dir)" "analysis \<noteq> []"
  proof -
    let ?fs = "sort_key (extract_image_number \<circ> fst) (collect_image_files dir)"
    from that(1) have l: "length ?fs \<ge> 2" by simp
    then have "\<not> length ?fs < 2" by simp
    moreover from l have "?fs \<noteq> []" by (metis length_0_conv not_numeral_le_zero)
    moreover from that(2) have "map structure_of_entry analysis \<noteq> []" by simp
    ultimately show ?thesis
      using b [of ?fs "map structure_of_entry analysis"]
      by (simp add: repack_with_structure_preservation_def Let_def del: length_sort)
  qed
  from header_from_structure_raises b c show ?thesis by blast
qed

definition ex_info :: structure_entry where
  "ex_info = \<lparr> info_index = 0, info_sector = Some 1, info_layer = Some 2,
               info_image_number = Some 0, info_reserved = Some 0 \<rparr>"

definition ex_entry :: msi_entry where
  "ex_entry =
     \<lparr> index = 0, offset = 0,
       header = \<lparr> signature = [0x24, 0x4D, 0x73, 0x49], sector = 0, layer = 0,
                  image_number = 0, reserved = 0, image_size = 4 \<rparr>,
       image_data_offset = 12, image_data_size = 4, image_type = ustr ''PNG Image Start'' \<rparr>"

definition ex_pair_dir :: msi_pack_dir where
  "ex_pair_dir =
     \<lparr> listing = [(ustr ''image_nr1_off0x10.png'', RegularFile [0x89, 0x50, 0x4E, 0x47, 0x01]),
                  (ustr ''image_nr0_off0x0.png'', RegularFile [0x89, 0x50, 0x4E, 0x47])],
       metadata_entries = None \<rparr>"

lemma ex_pair_collect:
  "collect_image_files ex_pair_dir =
     [(ustr ''image_nr1_off0x10.png'', [0x89, 0x50, 0x4E, 0x47, 0x01]),
      (ustr ''image_nr0_off0x0.png'', [0x89, 0x50, 0x4E, 0x47])]"
  by (simp add: collect_image_files_def ex_pair_dir_def name_defs starts_with_def
      ends_with_def)

theorem structure_header_builder_always_raises_witness:
  "create_msi_header_from_structure MSIImageRepacker_init ex_info 3 = Inl AttributeError \<and>
   create_msi_binary_with_structure MSIImageRepacker_init
     [(ustr ''image_nr0_off0x0.png'', [1, 2, 3])] (Some [ex_info]) = (False, []) \<and>
   repack_with_structure_preservation MSIImageRepacker_init ex_pair_dir (Some [ex_entry]) None
     = (False, Some [])"
  using structure_header_builder_always_raises
    [of ex_info 3 "[(ustr ''image_nr0_off0x0.png'', [1, 2, 3])]" "[ex_info]" ex_pair_dir
      "[ex_entry]" None]
  by (simp add: ex_pair_collect)

section \<open>Entry numbering in both formats\<close>

definition ex_sig4 :: bytes where
  "ex_sig4 = [0x24, 0x4D, 0x73, 0x49]"

definition ex_msi_pair :: bytes where
  "ex_msi_pair =
     [0x24, 0x4D, 0x73, 0x49, 0, 0, 0, 0, 1, 0, 0, 0, 0xAA,
      0x24, 0x4D, 0x73, 0x49, 0, 0, 1, 0, 1, 0, 0, 0, 0xBB]"

lemma ex_msi_pair_entries:
  "map index (find_msi_entries_from ex_sig4 ex_msi_pair 0 []) = [0, 1] \<and>
   map offset (find_msi_entries_from ex_sig4 ex_msi_pair 0 []) = [0, 13]"
proof -
  have l: "length ex_msi_pair = 26" by (simp add: ex_msi_pair_def)
  have h0: "parse_msi_header ex_msi_pair 0 =
      Inr \<lparr> signature = ex_sig4, sector = 0, layer = 0, image_number = 0, reserved = 0,
            image_size = 1 \<rparr>"
    by (simp add: parse_msi_header_def HEADER_SIZE_def ex_msi_pair_def py_slice_def ex_sig4_def)
  have h1: "parse_msi_header ex_msi_pair 13 =
      Inr \<lparr> signature = ex_sig4, sector = 0, layer = 0, image_number = 1, reserved = 0,
            image_size = 1 \<rparr>"
    by (simp add: parse_msi_header_def HEADER_SIZE_def ex_msi_pair_def py_slice_def ex_sig4_def)
  have s0: "py_slice ex_msi_pair 0 4 = ex_sig4"
    by (simp add: ex_msi_pair_def py_slice_def ex_sig4_def)
  have s1: "py_slice ex_msi_pair 13 17 = ex_sig4"
    by (simp add: ex_msi_pair_def py_slice_def ex_sig4_def)
  have e2: "find_msi_entries_from ex_sig4 ex_msi_pair 26 es = es" for es
    by (subst find_msi_entries_from.simps) (simp add: l HEADER_SIZE_def)
  have e1: "find_msi_entries_from ex_sig4 ex_msi_pair 13 [e] =
      [e, \<lparr> index = 1, offset = 13,
            header = \<lparr> signature = ex_sig4, sector = 0, layer = 0, image_number = 1,
                       reserved = 0, image_size = 1 \<rparr>,
            image_data_offset = 25, image_data_size = 1,
            image_type = msi_detect_image_type (py_slice ex_msi_pair 25 26) \<rparr>]" for e
    by (subst find_msi_entries_from.simps) (simp add: l HEADER_SIZE_def s1 h1 e2)
  have e0: "find_msi_entries_from ex_sig4 ex_msi_pair 0 [] =
      [\<lparr> index = 0, offset = 0,
            header = \<lparr> signature = ex_sig4, sector = 0, layer = 0, image_number = 0,
                       reserved = 0, image_size = 1 \<rparr>,
            image_data_offset = 12, image_data_size = 1,
            image_type = msi_detect_image_type (py_slice ex_msi_pair 12 13) \<rparr>,
       \<lparr> index = 1, offset = 13,
            header = \<lparr> signature = ex_sig4, sector = 0, layer = 0, image_number = 1,
                       reserved = 0, image_size = 1 \<rparr>,
            image_data_offset = 25, image_data_size = 1,
            image_type = msi_detect_image_type (py_slice ex_msi_pair 25 26) \<rparr>]"
    by (subst find_msi_entries_from.simps) (simp add: l HEADER_SIZE_def s0 h0 e1)
  show ?thesis by (simp add: e0)
qed

text \<open>
  Claim C8 (as corrected). In format B the recorded index of an entry is its 0-based
  position among the entries found, and the change detector names its candidate file
  with it. In format A the recorded number is the 1-based position within the package
  (the first entry has number 1), and that number stands in the candidate's file name.
\<close>

theorem entry_numbering:
  "(pkg \<in> set (detect_asus_packer_format data) \<longrightarrow> i < length (images pkg) \<longrightarrow>
      number (images pkg ! i) = i + 1 \<and>
      candidate_filename (images pkg ! i) =
        image_filename (i + 1) (absolute_offset (images pkg ! i)) (img_type (images pkg ! i))) \<and>
   (j < length (find_msi_entries_from sig msi_data 0 []) \<longrightarrow>
      index (find_msi_entries_from sig msi_data 0 [] ! j) = j \<and>
      candidate_stem (find_msi_entries_from sig msi_data 0 [] ! j) =
        ustr (''image_nr'' @ str_dec j @ ''_off0x''
          @ str_HEX (offset (find_msi_entries_from sig msi_data 0 [] ! j))))"
proof -
  have a: "number (images pkg ! i) = i + 1"
    if "pkg \<in> set (detect_asus_packer_format data)" "i < length (images pkg)"
    using that detect_from_numbers [of pkg data 0 i] by (simp add: detect_asus_packer_format_def)
  have b: "index (find_msi_entries_from sig msi_data 0 [] ! j) = j"
    if "j < length (find_msi_entries_from sig msi_data 0 [])"
    using that find_msi_entries_from_index [of "[]" sig msi_data 0] by simp
  from a b show ?thesis by (auto simp: candidate_filename_def candidate_stem_def)
qed

theorem entry_numbering_witness:
  "number (images ex_package ! 1) = 2 \<and>
   candidate_filename (images ex_package ! 1) = ustr ''image_nr2_off0x00000064.img'' \<and>
   index (find_msi_entries_from ex_sig4 ex_msi_pair 0 [] ! 1) = 1 \<and>
   candidate_stem (find_msi_entries_from ex_sig4 ex_msi_pair 0 [] ! 1) = ustr ''image_nr1_off0xD''"
proof -
  have p: "ex_package \<in> set (detect_asus_packer_format ex_data)" by (simp add: ex_detect)
  have i: "1 < length (images ex_package)" by (simp add: ex_package_def)
  have j: "1 < length (find_msi_entries_from ex_sig4 ex_msi_pair 0 [])"
    using ex_msi_pair_entries by (metis length_map list.size(3,4) One_nat_def lessI
        add.commute plus_1_eq_Suc)
  have o: "offset (find_msi_entries_from ex_sig4 ex_msi_pair 0 [] ! Suc 0) = 13"
    using ex_msi_pair_entries j by (metis nth_map nth_Cons_0 nth_Cons_Suc One_nat_def)
  have im: "images ex_package ! Suc 0 = ex_image2" by (simp add: ex_package_def)
  have f: "image_filename (Suc (Suc 0)) 100 ''img'' = ustr ''image_nr2_off0x00000064.img''"
    using ex_filename2 by (simp add: numeral_2_eq_2)
  have s: "str_dec (Suc 0) = ''1''" "str_HEX 13 = ''D''"
    by (simp_all add: str_dec_def str_HEX_def to_digits.simps digit_char_def)
  from entry_numbering [of ex_package ex_data 1 1 ex_sig4 ex_msi_pair] p i j
  show ?thesis by (simp add: o im f s ex_image2_def)
qed

theorem first_entry_is_number_one:
  "images (hd (detect_asus_packer_format ex_data)) ! 0 = ex_image1 \<and>
   number ex_image1 = 1 \<and>
   candidate_filename ex_image1 = ustr ''image_nr1_off0x00000040.img''"
  using ex_filename1
  by (simp add: ex_detect ex_package_def candidate_filename_def ex_image1_def)

section \<open>Rebuilding when nothing was modified\<close>

text \<open>
  The classification of one format-A entry against a package directory, branch by
  branch as \<open>rebuild_asus_packer_preserve_structure\<close> decides it (a generated name that
  fails the pattern check counts as unchanged).
\<close>

datatype classification = Unchanged | Modified | Missing | TypeMismatch

definition classify :: "pkg_dir \<Rightarrow> image_info \<Rightarrow> classification" where
  "classify dir img =
     (if \<not> matches_image_pattern (candidate_filename img) then Unchanged
      else
        case dir (candidate_filename img) of
          None \<Rightarrow> Missing
        | Some extracted_data \<Rightarrow>
            if \<not> validate_image_replacement img extracted_data then TypeMismatch
            else if extracted_data = img_data img then Unchanged
            else Modified)"

definition none_modified :: "extracted_dir \<Rightarrow> nat \<Rightarrow> package_info list \<Rightarrow> bool" where
  "none_modified dir first_idx pkgs \<longleftrightarrow>
     (\<forall>k<length pkgs.
        case dir (first_idx + k) of
          None \<Rightarrow> True
        | Some pd \<Rightarrow> \<forall>img\<in>set (images (pkgs ! k)). classify pd img \<noteq> Modified)"

lemma detect_image_not_modified:
  "classify pd img \<noteq> Modified \<Longrightarrow>
   modified_count (detect_image pd k st img) = modified_count st"
  by (auto simp: classify_def detect_image_def candidate_filename_def Let_def
      split: option.splits if_splits)

lemma detect_images_not_modified:
  "\<forall>img\<in>set imgs. classify pd img \<noteq> Modified \<Longrightarrow>
   modified_count (foldl (detect_image pd k) st imgs) = modified_count st"
  by (induction imgs arbitrary: st) (simp_all add: detect_image_not_modified)

lemma detect_packages_not_modified:
  "none_modified dir idx pkgs \<Longrightarrow>
   modified_count (detect_packages dir idx pkgs st) = modified_count st"
proof (induction pkgs arbitrary: idx st)
  case Nil
  then show ?case by simp
next
  case (Cons pkg pkgs)
  have tl: "none_modified dir (idx + 1) pkgs"
    unfolding none_modified_def
  proof (intro allI impI)
    fix k assume "k < length pkgs"
    then have "Suc k < length (pkg # pkgs)" by simp
    with Cons.prems have "case dir (idx + Suc k) of None \<Rightarrow> True
        | Some pd \<Rightarrow> \<forall>img\<in>set (images ((pkg # pkgs) ! Suc k)). classify pd img \<noteq> Modified"
      unfolding none_modified_def by blast
    then show "case dir (idx + 1 + k) of None \<Rightarrow> True
        | Some pd \<Rightarrow> \<forall>img\<in>set (images (pkgs ! k)). classify pd img \<noteq> Modified"
      by (simp split: option.splits)
  qed
  have "0 < length (pkg # pkgs)" by simp
  with Cons.prems have "case dir (idx + 0) of None \<Rightarrow> True
      | Some pd \<Rightarrow> \<forall>img\<in>set (images ((pkg # pkgs) ! 0)). classify pd img \<noteq> Modified"
    unfolding none_modified_def by blast
  then have hd: "case dir idx of None \<Rightarrow> True
      | Some pd \<Rightarrow> \<forall>img\<in>set (images pkg). classify pd img \<noteq> Modified"
    by (simp split: option.splits)
  show ?case
  proof (cases "dir idx")
    case None
    with Cons.IH [OF tl] show ?thesis by simp
  next
    case (Some pd)
    with hd have "\<forall>img\<in>set (images pkg). classify pd img \<noteq> Modified" by simp
    from detect_images_not_modified [OF this] Cons.IH [OF tl] Some show ?thesis by simp
  qed
qed

text \<open>
  Format B, on the directory: the paths under which the change detector looks for the
  candidate of an entry (the entry's type as extension, then each supported extension),
  and an entry without candidate: none of these paths exists.
\<close>

definition candidate_paths :: "msi_entry \<Rightarrow> ustring list" where
  "candidate_paths entry =
     (candidate_stem entry @ ustr ''.'' @ image_type entry)
       # map (\<lambda>ext. candidate_stem entry @ ext) supported_extensions"

definition msi_missing :: "msi_pack_dir \<Rightarrow> msi_entry \<Rightarrow> bool" where
  "msi_missing mdir entry \<longleftrightarrow>
     (\<forall>path\<in>set (candidate_paths entry). map_of (listing mdir) path = None)"

lemma find_candidate_path_in:
  "find_candidate_path mdir (candidate_stem entry) (image_type entry)
     \<in> set (candidate_paths entry)"
proof -
  let ?found = "filter (\<lambda>e. map_of (listing mdir) (candidate_stem entry @ e) \<noteq> None)
      supported_extensions"
  show ?thesis
  proof (cases ?found)
    case Nil
    then show ?thesis by (simp add: find_candidate_path_def candidate_paths_def Let_def)
  next
    case (Cons e es)
    then have "e \<in> set ?found" by simp
    then have "e \<in> set supported_extensions" by simp
    with Cons show ?thesis by (simp add: find_candidate_path_def candidate_paths_def Let_def)
  qed
qed

lemma detect_modified_entry_missing:
  assumes "msi_missing mdir entry"
  shows "detect_modified_entry mdir original modified entry = modified"
proof -
  from assms find_candidate_path_in [of mdir entry]
  have "map_of (listing mdir)
      (find_candidate_path mdir (candidate_stem entry) (image_type entry)) = None"
    unfolding msi_missing_def by blast
  then show ?thesis by (simp add: detect_modified_entry_def Let_def)
qed

lemma detect_modified_entries_missing:
  "\<forall>entry\<in>set entries. msi_missing mdir entry \<Longrightarrow>
   foldl (detect_modified_entry mdir original) modified entries = modified"
  by (induction entries arbitrary: modified) (simp_all add: detect_modified_entry_missing)

text \<open>
  Claim C2 (as corrected). Format A: when the scan finds at least one container and no
  entry is classified as modified, the rebuild writes a copy of the host buffer.
  Format B, structure-preservation mode with an original file: when no candidate file
  exists for any entry of the analysis, the repack writes a copy of the original file.
\<close>

theorem unmodified_rebuild_is_identity:
  "(detect_asus_packer_format data \<noteq> [] \<longrightarrow>
    none_modified dir 1 (detect_asus_packer_format data) \<longrightarrow>
      rebuild_asus_packer_preserve_structure data (Some dir) = Inr (Some data)) \<and>
   ((\<forall>entry\<in>set entries. msi_missing mdir entry) \<longrightarrow>
      repack_from_directory self (StructureDir mdir) (Some entries) (Some original)
        general_changed general_result = (True, Some original))"
proof -
  have a: "rebuild_asus_packer_preserve_structure data (Some dir) = Inr (Some data)"
    if "detect_asus_packer_format data \<noteq> []"
      "none_modified dir 1 (detect_asus_packer_format data)"
  proof -
    from detect_packages_not_modified [OF that(2), of initial_detect_state]
    have "modified_count (detect_packages dir 1 (detect_asus_packer_format data)
        initial_detect_state) = 0"
      by (simp add: initial_detect_state_def)
    with that(1) show ?thesis
      by (simp add: rebuild_asus_packer_preserve_structure_def Let_def)
  qed
  have b: "repack_from_directory self (StructureDir mdir) (Some entries) (Some original)
        general_changed general_result = (True, Some original)"
    if "\<forall>entry\<in>set entries. msi_missing mdir entry"
  proof -
    from detect_modified_entries_missing [OF that]
    have "detect_modified_images mdir original (Some entries) = []"
      by (simp add: detect_modified_images_def)
    then show ?thesis by (simp add: repack_from_directory_def copy_original_file_def)
  qed
  from a b show ?thesis by blast
qed

definition ex_kept_files :: pkg_dir where
  "ex_kept_files name =
     (if name = ustr ''image_nr1_off0x00000040.img'' then Some [0x42, 0x4D, 0x00, 0x00]
      else if name = ustr ''image_nr2_off0x00000064.img'' then Some [5, 6, 7, 8, 9]
      else None)"

definition ex_kept_dir :: extracted_dir where
  "ex_kept_dir pkg_idx = (if pkg_idx = 1 then Some ex_kept_files else None)"

lemma ex_classify:
  "classify ex_kept_files ex_image1 = TypeMismatch"
  "classify ex_kept_files ex_image2 = Unchanged"
proof -
  have n: "candidate_filename ex_image1 = ustr ''image_nr1_off0x00000040.img''"
    "candidate_filename ex_image2 = ustr ''image_nr2_off0x00000064.img''"
    using ex_filename1 ex_filename2
    by (simp_all add: candidate_filename_def ex_image1_def ex_image2_def)
  show "classify ex_kept_files ex_image1 = TypeMismatch"
    unfolding classify_def n
    by (simp add: ex_matches1 ex_kept_files_def validate_image_replacement_def
        detect_asus_image_type_def ex_image1_def)
  show "classify ex_kept_files ex_image2 = Unchanged"
    unfolding classify_def n
    by (simp add: ex_matches2 ex_kept_files_def validate_image_replacement_def
        detect_asus_image_type_def ex_image2_def)
qed

lemma ex_none_modified: "none_modified ex_kept_dir 1 [ex_package]"
  by (simp add: none_modified_def ex_kept_dir_def ex_package_def ex_classify)

definition ex_msi_data :: bytes where
  "ex_msi_data = [0x24, 0x4D, 0x73, 0x49, 0, 0, 0, 0, 4, 0, 0, 0, 0x89, 0x50, 0x4E, 0x47]"

lemma ex_stem: "candidate_stem ex_entry = ustr ''image_nr0_off0x0''"
  by (simp add: candidate_stem_def ex_entry_def str_dec_def str_HEX_def to_digits.simps
      digit_char_def)

lemma ex_entry_fields:
  "image_type ex_entry = ustr ''PNG Image Start''" "index ex_entry = 0" "offset ex_entry = 0"
  "image_data_size ex_entry = 4" "image_data_offset ex_entry = 12"
  by (simp_all add: ex_entry_def)

text \<open>
  A directory that holds a file of another entry only: the one entry of the analysis has
  no candidate.
\<close>

definition ex_other_dir :: msi_pack_dir where
  "ex_other_dir =
     \<lparr> listing = [(ustr ''image_nr5_off0x40.png'', RegularFile [0x89, 0x50, 0x4E, 0x47, 0x02])],
       metadata_entries = None \<rparr>"

lemma ex_other_missing: "msi_missing ex_other_dir ex_entry"
  by (simp add: msi_missing_def candidate_paths_def ex_stem ex_entry_fields ex_other_dir_def
      supported_extensions_def)

theorem unmodified_rebuild_is_identity_witness:
  "rebuild_asus_packer_preserve_structure ex_data (Some ex_kept_dir) = Inr (Some ex_data) \<and>
   classify ex_kept_files ex_image1 = TypeMismatch \<and>
   classify ex_kept_files ex_image2 = Unchanged \<and>
   msi_missing ex_other_dir ex_entry \<and>
   repack_from_directory MSIImageRepacker_init (StructureDir ex_other_dir) (Some [ex_entry])
     (Some ex_msi_data) False (False, None) = (True, Some ex_msi_data)"
  using unmodified_rebuild_is_identity [of ex_data ex_kept_dir "[ex_entry]" ex_other_dir
      MSIImageRepacker_init ex_msi_data False "(False, None)"]
    ex_none_modified ex_other_missing ex_classify
  by (simp add: ex_detect)

text \<open>
  Where the claim fails. Format A: a buffer without signature has no entry classified as
  modified, and the rebuild returns failure without output. Format B: the entry was
  sniffed as PNG and its payload is the last four bytes of the original file. A
  candidate that sniffs as JPEG is taken as a modification; so is the candidate that
  equals the payload, which the detector compares with the four bytes at the entry's
  header offset. In both cases the repack goes on to collect image files and does not
  write a copy of the original file.
\<close>

definition ex_plain :: bytes where
  "ex_plain = [1, 2, 3, 4]"

definition ex_single_dir :: msi_pack_dir where
  "ex_single_dir =
     \<lparr> listing = [(ustr ''image_nr0_off0x0.png'', RegularFile [0xFF, 0xD8, 0xFF, 0xE0]),
                  (ustr ''notes.txt'', RegularFile [])],
       metadata_entries = None \<rparr>"

definition ex_payload_dir :: msi_pack_dir where
  "ex_payload_dir =
     \<lparr> listing = [(ustr ''image_nr0_off0x0.png'', RegularFile [0x89, 0x50, 0x4E, 0x47])],
       metadata_entries = None \<rparr>"

lemma ex_single_collect: "length (collect_image_files ex_single_dir) < 2"
  using length_collect_image_files_le [of ex_single_dir]
  by (simp add: ex_single_dir_def is_image_file_def name_defs)

lemma ex_single_path:
  "find_candidate_path ex_single_dir (ustr ''image_nr0_off0x0'') (ustr ''PNG Image Start'')
     = ustr ''image_nr0_off0x0.png''"
  by (simp add: find_candidate_path_def ex_single_dir_def supported_extensions_def Let_def)

lemma ex_single_lookup:
  "map_of (listing ex_single_dir) (ustr ''image_nr0_off0x0.png'')
     = Some (RegularFile [0xFF, 0xD8, 0xFF, 0xE0])"
  by (simp add: ex_single_dir_def)

lemma ex_payload_path:
  "find_candidate_path ex_payload_dir (ustr ''image_nr0_off0x0'') (ustr ''PNG Image Start'')
     = ustr ''image_nr0_off0x0.png''"
  by (simp add: find_candidate_path_def ex_payload_dir_def supported_extensions_def Let_def)

lemma ex_payload_lookup:
  "map_of (listing ex_payload_dir) (ustr ''image_nr0_off0x0.png'')
     = Some (RegularFile [0x89, 0x50, 0x4E, 0x47])"
  by (simp add: ex_payload_dir_def)

lemma ex_single_detect:
  "detect_modified_images ex_single_dir ex_msi_data (Some [ex_entry]) =
     [(0, \<lparr> original_entry = ex_entry, msi_new_data = [0xFF, 0xD8, 0xFF, 0xE0],
            msi_new_size = 4, msi_size_diff = 0, filepath = ustr ''image_nr0_off0x0.png'' \<rparr>)]"
proof -
  have "detect_modified_entry ex_single_dir ex_msi_data [] ex_entry =
      [(0, \<lparr> original_entry = ex_entry, msi_new_data = [0xFF, 0xD8, 0xFF, 0xE0],
             msi_new_size = 4, msi_size_diff = 0, filepath = ustr ''image_nr0_off0x0.png'' \<rparr>)]"
    unfolding detect_modified_entry_def Let_def ex_stem ex_entry_fields ex_single_path
      ex_single_lookup
    by (simp add: ex_msi_data_def py_slice_def)
  then show ?thesis by (simp add: detect_modified_images_def)
qed

lemma ex_single_repack:
  "repack_from_directory MSIImageRepacker_init (StructureDir ex_single_dir) (Some [ex_entry])
     (Some ex_msi_data) False (False, None) = (False, None)"
proof -
  from ex_single_collect have "length (sort_key (extract_image_number \<circ> fst)
      (collect_image_files ex_single_dir)) < 2" by simp
  then have r: "repack_with_structure_preservation MSIImageRepacker_init ex_single_dir
      (Some [ex_entry]) modified = (False, None)" for modified
    by (simp add: repack_with_structure_preservation_def Let_def del: length_sort)
  show ?thesis
    by (simp add: repack_from_directory_def ex_single_detect r)
qed

lemma ex_payload_repack:
  "repack_from_directory MSIImageRepacker_init (StructureDir ex_payload_dir) (Some [ex_entry])
     (Some ex_msi_data) False (False, None) = (False, None)"
proof -
  have d: "detect_modified_entry ex_payload_dir ex_msi_data [] ex_entry =
      [(0, \<lparr> original_entry = ex_entry, msi_new_data = [0x89, 0x50, 0x4E, 0x47],
             msi_new_size = 4, msi_size_diff = 0, filepath = ustr ''image_nr0_off0x0.png'' \<rparr>)]"
    unfolding detect_modified_entry_def Let_def ex_stem ex_entry_fields ex_payload_path
      ex_payload_lookup
    by (simp add: ex_msi_data_def py_slice_def)
  have "length (collect_image_files ex_payload_dir) < 2"
    using length_collect_image_files_le [of ex_payload_dir]
    by (simp add: ex_payload_dir_def is_image_file_def name_defs)
  then have "length (sort_key (extract_image_number \<circ> fst)
      (collect_image_files ex_payload_dir)) < 2" by simp
  then have r: "repack_with_structure_preservation MSIImageRepacker_init ex_payload_dir
      (Some [ex_entry]) modified = (False, None)" for modified
    by (simp add: repack_with_structure_preservation_def Let_def del: length_sort)
  show ?thesis
    by (simp add: repack_from_directory_def detect_modified_images_def d r)
qed

theorem round_trip_counterexample:
  "detect_asus_packer_format ex_plain = [] \<and>
   none_modified ex_kept_dir 1 (detect_asus_packer_format ex_plain) \<and>
   rebuild_asus_packer_preserve_structure ex_plain (Some ex_kept_dir) = Inr None \<and>
   image_type ex_entry = ustr ''PNG Image Start'' \<and>
   py_slice ex_msi_data (image_data_offset ex_entry)
     (image_data_offset ex_entry + image_data_size ex_entry) = [0x89, 0x50, 0x4E, 0x47] \<and>
   msi_detect_image_type [0xFF, 0xD8, 0xFF, 0xE0] = ustr ''JPEG Image Start'' \<and>
   map_of (listing ex_single_dir)
     (find_candidate_path ex_single_dir (candidate_stem ex_entry) (image_type ex_entry))
     = Some (RegularFile [0xFF, 0xD8, 0xFF, 0xE0]) \<and>
   repack_from_directory MSIImageRepacker_init (StructureDir ex_single_dir) (Some [ex_entry])
     (Some ex_msi_data) False (False, None) = (False, None) \<and>
   map_of (listing ex_payload_dir)
     (find_candidate_path ex_payload_dir (candidate_stem ex_entry) (image_type ex_entry))
     = Some (RegularFile [0x89, 0x50, 0x4E, 0x47]) \<and>
   repack_from_directory MSIImageRepacker_init (StructureDir ex_payload_dir) (Some [ex_entry])
     (Some ex_msi_data) False (False, None) = (False, None)"
proof -
  have "bytes_find asus_pattern ex_plain 0 = None"
    by (simp add: bytes_find_def ex_plain_def asus_pattern_def)
  then have d: "detect_asus_packer_format ex_plain = []"
    unfolding detect_asus_packer_format_def by (subst detect_from.simps) simp
  then have a: "none_modified ex_kept_dir 1 (detect_asus_packer_format ex_plain)"
    "rebuild_asus_packer_preserve_structure ex_plain (Some ex_kept_dir) = Inr None"
    by (simp_all add: rebuild_asus_packer_preserve_structure_def none_modified_def)
  have p: "py_slice ex_msi_data (image_data_offset ex_entry)
      (image_data_offset ex_entry + image_data_size ex_entry) = [0x89, 0x50, 0x4E, 0x47]"
    by (simp add: ex_entry_fields ex_msi_data_def py_slice_def)
  have j: "msi_detect_image_type [0xFF, 0xD8, 0xFF, 0xE0] = ustr ''JPEG Image Start''"
    by (simp add: msi_detect_image_type_def magic_patterns_def MSI_SIGNATURE_def)
  have m1: "map_of (listing ex_single_dir)
      (find_candidate_path ex_single_dir (candidate_stem ex_entry) (image_type ex_entry))
      = Some (RegularFile [0xFF, 0xD8, 0xFF, 0xE0])"
    by (simp only: ex_stem ex_entry_fields ex_single_path ex_single_lookup)
  have m2: "map_of (listing ex_payload_dir)
      (find_candidate_path ex_payload_dir (candidate_stem ex_entry) (image_type ex_entry))
      = Some (RegularFile [0x89, 0x50, 0x4E, 0x47])"
    by (simp only: ex_stem ex_entry_fields ex_payload_path ex_payload_lookup)
  from d a p j m1 m2 ex_single_repack ex_payload_repack ex_entry_fields(1)
  show ?thesis by (intro conjI)
qed

section \<open>Candidates of another image type\<close>

text \<open>
  Two candidates for one format-A entry are related when they are the same, or the first
  sniffs to a type other than the entry's and the second is the entry's original payload.
\<close>

definition same_or_rejected :: "image_info \<Rightarrow> bytes option \<Rightarrow> bytes option \<Rightarrow> bool" where
  "same_or_rejected img c1 c2 \<longleftrightarrow>
     c1 = c2 \<or>
     (case c1 of
        Some cand \<Rightarrow> detect_asus_image_type cand \<noteq> img_type img \<and> c2 = Some (img_data img)
      | None \<Rightarrow> False)"

definition candidates_agree ::
  "extracted_dir \<Rightarrow> extracted_dir \<Rightarrow> nat \<Rightarrow> package_info list \<Rightarrow> bool" where
  "candidates_agree d1 d2 first_idx pkgs \<longleftrightarrow>
     (\<forall>k<length pkgs.
        case (d1 (first_idx + k), d2 (first_idx + k)) of
          (None, None) \<Rightarrow> True
        | (Some pd1, Some pd2) \<Rightarrow>
            \<forall>img\<in>set (images (pkgs ! k)).
              same_or_rejected img (pd1 (candidate_filename img)) (pd2 (candidate_filename img))
        | _ \<Rightarrow> False)"

lemma detect_image_agree:
  assumes "same_or_rejected img (pd1 (candidate_filename img)) (pd2 (candidate_filename img))"
  shows "detect_image pd1 k st img = detect_image pd2 k st img"
proof -
  let ?f = "image_filename (number img) (absolute_offset img) (img_type img)"
  from assms consider "pd1 ?f = pd2 ?f"
    | cand where "pd1 ?f = Some cand" "detect_asus_image_type cand \<noteq> img_type img"
        "pd2 ?f = Some (img_data img)"
    by (auto simp: same_or_rejected_def candidate_filename_def split: option.splits)
  then show ?thesis
  proof cases
    case 1
    then show ?thesis by (simp add: detect_image_def Let_def)
  next
    case 2
    then show ?thesis
      by (simp add: detect_image_def Let_def validate_image_replacement_def)
  qed
qed

lemma detect_images_agree:
  "\<forall>img\<in>set imgs.
     same_or_rejected img (pd1 (candidate_filename img)) (pd2 (candidate_filename img)) \<Longrightarrow>
   foldl (detect_image pd1 k) st imgs = foldl (detect_image pd2 k) st imgs"
proof (induction imgs arbitrary: st)
  case Nil
  then show ?case by simp
next
  case (Cons img imgs)
  from Cons.prems have "detect_image pd1 k st img = detect_image pd2 k st img"
    by (simp add: detect_image_agree)
  moreover from Cons.prems have "\<forall>img\<in>set imgs.
     same_or_rejected img (pd1 (candidate_filename img)) (pd2 (candidate_filename img))"
    by simp
  ultimately show ?case using Cons.IH by simp
qed

lemma detect_packages_agree:
  "candidates_agree d1 d2 idx pkgs \<Longrightarrow>
   detect_packages d1 idx pkgs st = detect_packages d2 idx pkgs st"
proof (induction pkgs arbitrary: idx st)
  case Nil
  then show ?case by simp
next
  case (Cons pkg pkgs)
  have tl: "candidates_agree d1 d2 (idx + 1) pkgs"
    unfolding candidates_agree_def
  proof (intro allI impI)
    fix k assume "k < length pkgs"
    then have "Suc k < length (pkg # pkgs)" by simp
    with Cons.prems have "case (d1 (idx + Suc k), d2 (idx + Suc k)) of
          (None, None) \<Rightarrow> True
        | (Some pd1, Some pd2) \<Rightarrow>
            \<forall>img\<in>set (images ((pkg # pkgs) ! Suc k)).
              same_or_rejected img (pd1 (candidate_filename img)) (pd2 (candidate_filename img))
        | _ \<Rightarrow> False"
      unfolding candidates_agree_def by blast
    then show "case (d1 (idx + 1 + k), d2 (idx + 1 + k)) of
          (None, None) \<Rightarrow> True
        | (Some pd1, Some pd2) \<Rightarrow>
            \<forall>img\<in>set (images (pkgs ! k)).
              same_or_rejected img (pd1 (candidate_filename img)) (pd2 (candidate_filename img))
        | _ \<Rightarrow> False"
      by (simp split: option.splits)
  qed
  have "0 < length (pkg # pkgs)" by simp
  with Cons.prems have "case (d1 (idx + 0), d2 (idx + 0)) of
        (None, None) \<Rightarrow> True
      | (Some pd1, Some pd2) \<Rightarrow>
          \<forall>img\<in>set (images ((pkg # pkgs) ! 0)).
            same_or_rejected img (pd1 (candidate_filename img)) (pd2 (candidate_filename img))
      | _ \<Rightarrow> False"
    unfolding candidates_agree_def by blast
  then consider "d1 idx = None" "d2 idx = None"
    | pd1 pd2 where "d1 idx = Some pd1" "d2 idx = Some pd2"
        "\<forall>img\<in>set (images pkg).
           same_or_rejected img (pd1 (candidate_filename img)) (pd2 (candidate_filename img))"
    by (auto split: option.splits)
  then show ?case
  proof cases
    case 1
    with Cons.IH [OF tl] show ?thesis by simp
  next
    case 2
    from detect_images_agree [OF 2(3)] Cons.IH [OF tl] 2(1,2) show ?thesis by simp
  qed
qed

lemma detect_modified_entry_keys:
  assumes "offset entry + image_data_size entry \<le> length original"
    and "map_of (listing mdir)
           (find_candidate_path mdir (candidate_stem entry) (image_type entry))
         = Some (RegularFile cand)"
  shows "index entry \<in> fst ` set (detect_modified_entry mdir original modified entry) \<longleftrightarrow>
         cand \<noteq> py_slice original (offset entry) (offset entry + image_data_size entry) \<or>
         index entry \<in> fst ` set modified"
proof -
  have "index entry \<in> fst ` set (AList.update (index entry) v modified)" for v
    by (simp add: dom_update [unfolded dom_map_of_conv_image_fst])
  with assms show ?thesis
    by (auto simp: detect_modified_entry_def Let_def)
qed

text \<open>
  Claim C4 (as corrected). Format A: a candidate whose sniffed type differs from the
  entry's type is rejected, and the rebuild returns what it returns when the candidate
  is the entry's original payload. Format B: the change detector sniffs nothing; a
  candidate file that is found and read is recorded as modified exactly when its bytes
  differ from the slice of the original file it is compared with, whatever its type.
\<close>

theorem type_mismatch_handling:
  "(candidates_agree d1 d2 1 (detect_asus_packer_format data) \<longrightarrow>
      rebuild_asus_packer_preserve_structure data (Some d1)
        = rebuild_asus_packer_preserve_structure data (Some d2)) \<and>
   (offset entry + image_data_size entry \<le> length original \<longrightarrow>
    map_of (listing mdir) (find_candidate_path mdir (candidate_stem entry) (image_type entry))
      = Some (RegularFile cand) \<longrightarrow>
      (index entry \<in> fst ` set (detect_modified_entry mdir original modified entry) \<longleftrightarrow>
       cand \<noteq> py_slice original (offset entry) (offset entry + image_data_size entry) \<or>
       index entry \<in> fst ` set modified))"
proof -
  have "rebuild_asus_packer_preserve_structure data (Some d1)
      = rebuild_asus_packer_preserve_structure data (Some d2)"
    if "candidates_agree d1 d2 1 (detect_asus_packer_format data)"
    using detect_packages_agree [OF that, of initial_detect_state]
    by (simp add: rebuild_asus_packer_preserve_structure_def Let_def)
  with detect_modified_entry_keys [of entry original mdir cand modified] show ?thesis
    by blast
qed

definition ex_orig_files :: pkg_dir where
  "ex_orig_files name =
     (if name = ustr ''image_nr1_off0x00000040.img'' then Some [1, 2, 3, 4]
      else if name = ustr ''image_nr2_off0x00000064.img'' then Some [5, 6, 7, 8, 9]
      else None)"

definition ex_orig_dir :: extracted_dir where
  "ex_orig_dir pkg_idx = (if pkg_idx = 1 then Some ex_orig_files else None)"

lemma ex_candidate_names:
  "candidate_filename ex_image1 = ustr ''image_nr1_off0x00000040.img''"
  "candidate_filename ex_image2 = ustr ''image_nr2_off0x00000064.img''"
  using ex_filename1 ex_filename2
  by (simp_all add: candidate_filename_def ex_image1_def ex_image2_def)

lemma ex_candidates_agree: "candidates_agree ex_kept_dir ex_orig_dir 1 [ex_package]"
proof -
  have 1: "same_or_rejected ex_image1 (ex_kept_files (candidate_filename ex_image1))
      (ex_orig_files (candidate_filename ex_image1))"
    unfolding ex_candidate_names
    by (simp add: same_or_rejected_def ex_kept_files_def ex_orig_files_def
        detect_asus_image_type_def ex_image1_def)
  have 2: "same_or_rejected ex_image2 (ex_kept_files (candidate_filename ex_image2))
      (ex_orig_files (candidate_filename ex_image2))"
    unfolding ex_candidate_names
    by (simp add: same_or_rejected_def ex_kept_files_def ex_orig_files_def)
  from 1 2 show ?thesis
    by (simp add: candidates_agree_def ex_kept_dir_def ex_orig_dir_def ex_package_def)
qed

definition ex_same_dir :: msi_pack_dir where
  "ex_same_dir =
     \<lparr> listing = [(ustr ''image_nr0_off0x0.png'', RegularFile [0x24, 0x4D, 0x73, 0x49])],
       metadata_entries = None \<rparr>"

lemma ex_same_path:
  "find_candidate_path ex_same_dir (ustr ''image_nr0_off0x0'') (ustr ''PNG Image Start'')
     = ustr ''image_nr0_off0x0.png''"
  by (simp add: find_candidate_path_def ex_same_dir_def supported_extensions_def Let_def)

lemma ex_same_detect: "detect_modified_images ex_same_dir ex_msi_data (Some [ex_entry]) = []"
proof -
  have t: "image_type ex_entry = ustr ''PNG Image Start''" "index ex_entry = 0" "offset ex_entry = 0"
    "image_data_size ex_entry = 4"
    by (simp_all add: ex_entry_def)
  have "detect_modified_entry ex_same_dir ex_msi_data [] ex_entry = []"
    unfolding detect_modified_entry_def Let_def ex_stem t ex_same_path
    by (simp add: ex_same_dir_def ex_msi_data_def py_slice_def)
  then show ?thesis by (simp add: detect_modified_images_def)
qed

theorem type_mismatch_handling_witness:
  "rebuild_asus_packer_preserve_structure ex_data (Some ex_kept_dir)
     = rebuild_asus_packer_preserve_structure ex_data (Some ex_orig_dir) \<and>
   classify ex_kept_files ex_image1 = TypeMismatch \<and>
   classify ex_orig_files ex_image1 = Unchanged \<and>
   index ex_entry \<in> fst ` set (detect_modified_entry ex_single_dir ex_msi_data [] ex_entry)"
proof -
  have c: "classify ex_orig_files ex_image1 = Unchanged"
    unfolding classify_def ex_candidate_names
    by (simp add: ex_matches1 ex_orig_files_def validate_image_replacement_def
        detect_asus_image_type_def ex_image1_def)
  have l: "offset ex_entry + image_data_size ex_entry \<le> length ex_msi_data"
    by (simp add: ex_entry_fields ex_msi_data_def)
  have m: "map_of (listing ex_single_dir)
      (find_candidate_path ex_single_dir (candidate_stem ex_entry) (image_type ex_entry))
      = Some (RegularFile [0xFF, 0xD8, 0xFF, 0xE0])"
    by (simp only: ex_stem ex_entry_fields ex_single_path ex_single_lookup)
  have n: "[0xFF, 0xD8, 0xFF, 0xE0]
      \<noteq> py_slice ex_msi_data (offset ex_entry) (offset ex_entry + image_data_size ex_entry)"
    by (simp add: ex_entry_fields ex_msi_data_def py_slice_def)
  from type_mismatch_handling [of ex_kept_dir ex_orig_dir ex_data ex_entry ex_msi_data
      ex_single_dir "[0xFF, 0xD8, 0xFF, 0xE0]" "[]"]
    ex_candidates_agree l m n c ex_classify(1)
  show ?thesis by (simp add: ex_detect)
qed

text \<open>
  Format B at a concrete input: the entry was sniffed as PNG, the candidate sniffs as
  JPEG. The detector records it as modified with the candidate's bytes, and the repack
  does not return what it returns for the candidate the detector takes as unchanged
  (the bytes of the original file at the entry's offset).
\<close>

theorem msi_type_mismatch_counterexample:
  "msi_detect_image_type [0xFF, 0xD8, 0xFF, 0xE0] = ustr ''JPEG Image Start'' \<and>
   image_type ex_entry = ustr ''PNG Image Start'' \<and>
   map (msi_new_data \<circ> snd) (detect_modified_images ex_single_dir ex_msi_data (Some [ex_entry]))
     = [[0xFF, 0xD8, 0xFF, 0xE0]] \<and>
   repack_from_directory MSIImageRepacker_init (StructureDir ex_single_dir) (Some [ex_entry])
     (Some ex_msi_data) False (False, None) = (False, None) \<and>
   repack_from_directory MSIImageRepacker_init (StructureDir ex_same_dir) (Some [ex_entry])
     (Some ex_msi_data) False (False, None) = (True, Some ex_msi_data)"
proof -
  have 1: "msi_detect_image_type [0xFF, 0xD8, 0xFF, 0xE0] = ustr ''JPEG Image Start''"
    by (simp add: msi_detect_image_type_def magic_patterns_def MSI_SIGNATURE_def)
  have 3: "map (msi_new_data \<circ> snd)
      (detect_modified_images ex_single_dir ex_msi_data (Some [ex_entry]))
      = [[0xFF, 0xD8, 0xFF, 0xE0]]"
    by (simp add: ex_single_detect)
  have 5: "repack_from_directory MSIImageRepacker_init (StructureDir ex_same_dir)
      (Some [ex_entry]) (Some ex_msi_data) False (False, None) = (True, Some ex_msi_data)"
    by (simp add: repack_from_directory_def ex_same_detect copy_original_file_def)
  from 1 3 ex_single_repack 5 ex_entry_fields(1) show ?thesis by (intro conjI)
qed

section \<open>Size fields and offsets in rebuilt buffers\<close>

text \<open>
  Entry \<open>i\<close> of a format-A package, whose records start at \<open>base\<close> in the buffer \<open>out\<close>:
  its record starts at \<open>base + record_start i\<close> with the size field, the payload stands
  32 bytes further, and the next record starts where the padded payload ends.
\<close>

definition entry_at :: "modified_dict \<Rightarrow> image_info list \<Rightarrow> bytes \<Rightarrow> nat \<Rightarrow> nat \<Rightarrow> bool" where
  "entry_at modified imgs out base i \<longleftrightarrow>
     (let p = base + record_start modified imgs i;
          payload = emitted_payload modified (imgs ! i);
          s = length payload
      in unpack_le32 (py_slice out p (p + 4)) = Some s \<and>
         py_slice out (p + 32) (p + 32 + s) = payload \<and>
         record_start modified imgs (Suc i) = record_start modified imgs i + 32 + s + padding s)"

text \<open>
  A format-B output: one header and one payload per image file, in the order of the
  files, the bytes 8 to 11 of each header holding the length of its payload.
\<close>

definition msi_layout :: "(ustring \<times> bytes) list \<Rightarrow> bytes \<Rightarrow> bool" where
  "msi_layout files out \<longleftrightarrow>
     (\<exists>hdrs. length hdrs = length files \<and>
        out = concat (map2 (\<lambda>h f. h @ snd f) hdrs files) \<and>
        (\<forall>j<length files. unpack_le32 (py_slice (hdrs ! j) 8 12) = Some (length (snd (files ! j)))))"

lemma structural_rebuild_nth:
  assumes "structure_preserving_rebuild data pkgs modified = Inr final" and "k < length pkgs"
  shows "\<exists>nd out. emit_images data modified (sort_key number (images (pkgs ! k))) nd = Inr out \<and>
           take (length out) final = out"
proof -
  from assms(1) obtain nb cp where r: "rebuild_packages data modified pkgs [] 0 = Inr (nb, cp)"
    and fin: "final = (if cp < length data then nb @ drop cp data else nb)"
    by (auto simp: structure_preserving_rebuild_def split: sum.splits)
  from rebuild_packages_nth [OF r assms(2)] obtain nd out where
    e: "emit_images data modified (sort_key number (images (pkgs ! k))) nd = Inr out"
    and p: "take (length out) nb = out" by blast
  from p have "length out \<le> length nb" by (metis length_take min.cobounded1)
  with p fin have "take (length out) final = out" by auto
  with e show ?thesis by blast
qed

lemma pack_into_le32_field:
  assumes "pack_into_le32 b 8 n = Inr r"
  shows "unpack_le32 (py_slice r 8 12) = Some n"
proof -
  from assms obtain bs where bs: "pack_le32 n = Inr bs" and l: "12 \<le> length b"
    and r: "r = take 8 b @ bs @ drop 12 b"
    by (auto simp: pack_into_le32_def ebind_def split: sum.splits if_splits)
  from pack_le32_Inr(1,2) [OF bs] l r show ?thesis by (simp add: py_slice_def)
qed

lemma ebind_Inr: "ebind m f = Inr y \<Longrightarrow> \<exists>x. m = Inr x \<and> f x = Inr y"
  by (cases m) (simp_all add: ebind_def)

lemma create_msi_header_field:
  assumes "create_msi_header self i n = Inr h"
  shows "unpack_le32 (py_slice h 8 12) = Some n"
proof -
  from assms obtain h7 where "pack_into_le32 h7 8 n = Inr h"
    unfolding create_msi_header_def by (blast dest!: ebind_Inr)
  then show ?thesis by (rule pack_into_le32_field)
qed

lemma create_msi_header_from_structure_field:
  assumes "create_msi_header_from_structure self info n = Inr h"
  shows "unpack_le32 (py_slice h 8 12) = Some n"
proof -
  from assms obtain h7 where "pack_into_le32 h7 8 n = Inr h"
    unfolding create_msi_header_from_structure_def by (blast dest!: ebind_Inr)
  then show ?thesis by (rule pack_into_le32_field)
qed

lemma write_entries_layout:
  "write_entries self structure_info i files out0 = (None, out) \<Longrightarrow>
   \<exists>hdrs. length hdrs = length files \<and>
      out = out0 @ concat (map2 (\<lambda>h f. h @ snd f) hdrs files) \<and>
      (\<forall>j<length files. unpack_le32 (py_slice (hdrs ! j) 8 12) = Some (length (snd (files ! j))))"
proof (induction files arbitrary: i out0)
  case Nil
  then show ?case by simp
next
  case (Cons f files)
  obtain filename image_data where f: "f = (filename, image_data)" by (cases f)
  let ?info = "case structure_info of
      Some entries \<Rightarrow> if i < length entries then Some (entries ! i) else None
    | None \<Rightarrow> None"
  let ?hdr = "case ?info of
      Some info \<Rightarrow> create_msi_header_from_structure self info (length image_data)
    | None \<Rightarrow> create_msi_header self i (length image_data)"
  from Cons.prems f obtain hdr where hdr: "?hdr = Inr hdr"
    and rest: "write_entries self structure_info (i + 1) files (out0 @ hdr @ image_data)
               = (None, out)"
    by (auto simp: Let_def split: sum.splits)
  from hdr have field: "unpack_le32 (py_slice hdr 8 12) = Some (length image_data)"
    by (auto split: option.splits
        dest: create_msi_header_field create_msi_header_from_structure_field)
  from Cons.IH [OF rest] obtain hdrs where hdrs: "length hdrs = length files"
    "out = (out0 @ hdr @ image_data) @ concat (map2 (\<lambda>h f. h @ snd f) hdrs files)"
    "\<forall>j<length files. unpack_le32 (py_slice (hdrs ! j) 8 12) = Some (length (snd (files ! j)))"
    by blast
  have "\<forall>j<length (f # files).
      unpack_le32 (py_slice ((hdr # hdrs) ! j) 8 12) = Some (length (snd ((f # files) ! j)))"
    using hdrs(3) field f by (auto simp: nth_Cons split: nat.splits)
  with hdrs(1,2) f show ?case by (intro exI [of _ "hdr # hdrs"]) simp
qed

lemma emit_images_entry_at:
  assumes "emit_images data modified imgs nd = Inr out" and "i < length imgs"
  shows "entry_at modified imgs out (length nd) i"
  using emit_images_positions [OF assms] record_start_Suc [OF assms(2), of modified]
  by (simp add: entry_at_def Let_def record_len_def)

text \<open>
  Claim C3 (as corrected). Format A: in the buffer the entry loop of the structural
  rebuild produces, the size field of every entry is the length of the payload emitted
  for it, the entries stand in the order of the sorted list (which for a scanned package
  is its original order) with none dropped, the record of entry \<open>i + 1\<close> begins where the
  padded payload of entry \<open>i\<close> ends, and its payload begins 32 bytes after that; each
  package's loop output is a prefix of the rebuilt buffer. Format B: when the binary
  creation succeeds, the output is one header and payload per file, in order, each size
  field holding the length of its payload and the next header following the payload.
\<close>

theorem rebuilt_sizes_and_offsets:
  "(emit_images data modified imgs nd = Inr out \<longrightarrow> i < length imgs \<longrightarrow>
      entry_at modified imgs out (length nd) i) \<and>
   (structure_preserving_rebuild data pkgs modified = Inr final \<longrightarrow> k < length pkgs \<longrightarrow>
      (\<exists>nd' out'. emit_images data modified (sort_key number (images (pkgs ! k))) nd' = Inr out'
         \<and> take (length out') final = out')) \<and>
   (pkg \<in> set (detect_asus_packer_format data) \<longrightarrow> sort_key number (images pkg) = images pkg) \<and>
   (create_msi_binary_with_structure self files structure_info = (True, bout) \<longrightarrow>
      msi_layout files bout)"
proof -
  have 4: "msi_layout files bout"
    if "create_msi_binary_with_structure self files structure_info = (True, bout)"
  proof -
    from that have "write_entries self structure_info 0 files [] = (None, bout)"
      by (auto simp: create_msi_binary_with_structure_def split: prod.splits option.splits)
    from write_entries_layout [OF this] show ?thesis by (simp add: msi_layout_def)
  qed
  have 3: "sort_key number (images pkg) = images pkg"
    if "pkg \<in> set (detect_asus_packer_format data)"
    using that detect_from_sorted [of pkg data 0] by (simp add: detect_asus_packer_format_def)
  from emit_images_entry_at [of data modified imgs nd out i]
    structural_rebuild_nth [of data pkgs modified final k] 3 4
  show ?thesis by blast
qed

definition ex_files :: "(ustring \<times> bytes) list" where
  "ex_files = [(ustr ''image_nr0_off0x0.png'', [0x89, 0x50, 0x4E, 0x47]),
               (ustr ''image_nr1_off0x10.png'', [0x89, 0x50, 0x4E, 0x47, 0x01])]"

definition ex_msi_out :: bytes where
  "ex_msi_out =
     [0x24, 0x4D, 0x73, 0x49, 0, 0, 0, 0, 4, 0, 0, 0, 0] @ [0x89, 0x50, 0x4E, 0x47]
     @ [0x24, 0x4D, 0x73, 0x49, 0, 0, 1, 0, 5, 0, 0, 0, 0] @ [0x89, 0x50, 0x4E, 0x47, 0x01]"

lemma ex_default_headers:
  "create_msi_header MSIImageRepacker_init 0 4
     = Inr [0x24, 0x4D, 0x73, 0x49, 0, 0, 0, 0, 4, 0, 0, 0, 0]"
  "create_msi_header MSIImageRepacker_init (Suc 0) 5
     = Inr [0x24, 0x4D, 0x73, 0x49, 0, 0, 1, 0, 5, 0, 0, 0, 0]"
proof -
  have r: "replicate 12 (0::byte) = [0, 0, 0, 0, 0, 0, 0, 0, 0, 0, 0, 0]"
    by (simp add: numeral_eq_Suc)
  have s: "set_slice [0, 0, 0, 0, 0, 0, 0, 0, 0, 0, 0, 0] 0 4 MSI_SIGNATURE
      = [0x24, 0x4D, 0x73, 0x49, 0x24, 0, 0, 0, 0, 0, 0, 0, 0]"
    by (simp add: set_slice_def MSI_SIGNATURE_def)
  have u: "set_item [a0, a1, a2, a3, a4, a5, a6, a7, a8, a9, a10, a11, a12] 4 v
        = (if v < 256 then Inr [a0, a1, a2, a3, of_nat v, a5, a6, a7, a8, a9, a10, a11, a12]
           else Inl ValueError)"
      "set_item [a0, a1, a2, a3, a4, a5, a6, a7, a8, a9, a10, a11, a12] 5 v
        = (if v < 256 then Inr [a0, a1, a2, a3, a4, of_nat v, a6, a7, a8, a9, a10, a11, a12]
           else Inl ValueError)"
      "set_item [a0, a1, a2, a3, a4, a5, a6, a7, a8, a9, a10, a11, a12] 6 v
        = (if v < 256 then Inr [a0, a1, a2, a3, a4, a5, of_nat v, a7, a8, a9, a10, a11, a12]
           else Inl ValueError)"
      "set_item [a0, a1, a2, a3, a4, a5, a6, a7, a8, a9, a10, a11, a12] 7 v
        = (if v < 256 then Inr [a0, a1, a2, a3, a4, a5, a6, of_nat v, a8, a9, a10, a11, a12]
           else Inl ValueError)"
    for a0 a1 a2 a3 a4 a5 a6 a7 a8 a9 a10 a11 a12 :: byte and v
    by (simp_all add: set_item_def numeral_eq_Suc)
  show "create_msi_header MSIImageRepacker_init 0 4
     = Inr [0x24, 0x4D, 0x73, 0x49, 0, 0, 0, 0, 4, 0, 0, 0, 0]"
    by (simp add: create_msi_header_def get_int_def get_bytes_def ebind_def init_attrs r s u
        pack_into_le32_def pack_le32_def)
  show "create_msi_header MSIImageRepacker_init (Suc 0) 5
     = Inr [0x24, 0x4D, 0x73, 0x49, 0, 0, 1, 0, 5, 0, 0, 0, 0]"
    by (simp add: create_msi_header_def get_int_def get_bytes_def ebind_def init_attrs r s u
        pack_into_le32_def pack_le32_def)
qed

lemma ex_msi_create_names:
  "create_msi_binary_with_structure MSIImageRepacker_init
     [(n0, [0x89, 0x50, 0x4E, 0x47]), (n1, [0x89, 0x50, 0x4E, 0x47, 0x01])] None
   = (True, ex_msi_out)"
proof -
  have n: "Suc (Suc (Suc (Suc 0))) = 4" "Suc (Suc (Suc (Suc (Suc 0)))) = 5" by simp_all
  show ?thesis
    by (simp add: create_msi_binary_with_structure_def n ex_default_headers ex_msi_out_def)
qed

lemma ex_msi_create:
  "create_msi_binary_with_structure MSIImageRepacker_init ex_files None = (True, ex_msi_out)"
  unfolding ex_files_def by (rule ex_msi_create_names)

lemma ex_emit_images:
  "emit_images ex_data ex_grow [ex_image1, ex_image2] asus_pattern = Inr ex_rebuilt"
  by (simp add: ex_emit1 ex_emit2 ex_rebuilt_def)

theorem rebuilt_sizes_and_offsets_witness:
  "entry_at ex_grow [ex_image1, ex_image2] ex_rebuilt 32 1 \<and>
   (\<exists>nd' out'. emit_images ex_data ex_grow (sort_key number (images ex_package)) nd' = Inr out'
      \<and> take (length out') ex_rebuilt = out') \<and>
   sort_key number (images ex_package) = images ex_package \<and>
   msi_layout ex_files ex_msi_out"
proof -
  have l: "length asus_pattern = 32" by (simp add: asus_pattern_def)
  have p: "ex_package \<in> set (detect_asus_packer_format ex_data)" by (simp add: ex_detect)
  have i: "1 < length [ex_image1, ex_image2]" and k: "0 < length [ex_package]"
    and n: "[ex_package] ! 0 = ex_package" by simp_all
  from rebuilt_sizes_and_offsets [of ex_data ex_grow "[ex_image1, ex_image2]" asus_pattern
      ex_rebuilt 1 "[ex_package]" ex_rebuilt 0 ex_package MSIImageRepacker_init ex_files None
      ex_msi_out]
    ex_emit_images i ex_structural k ex_msi_create p
  show ?thesis unfolding l n by blast
qed

text \<open>
  In the rebuilt two-entry buffer the padded payload of the first entry ends at offset
  72; the payload of the second entry does not begin there but at 104, behind its 32
  bytes of metadata.
\<close>

theorem payload_not_adjacent_counterexample:
  "structure_preserving_rebuild ex_data (detect_asus_packer_format ex_data) ex_grow
     = Inr ex_rebuilt \<and>
   py_slice ex_rebuilt 64 69 = emitted_payload ex_grow ex_image1 \<and>
   py_slice ex_rebuilt 69 72 = [0, 0, 0] \<and>
   py_slice ex_rebuilt 72 77 \<noteq> emitted_payload ex_grow ex_image2 \<and>
   py_slice ex_rebuilt 104 109 = emitted_payload ex_grow ex_image2"
proof -
  have 1: "emitted_payload ex_grow ex_image1 = [1, 2, 3, 4, 5]"
    "emitted_payload ex_grow ex_image2 = [5, 6, 7, 8, 9]"
    by (simp_all add: emitted_payload_def ex_grow_def ex_image1_def ex_image2_def)
  have 2: "py_slice ex_rebuilt 64 69 = [1, 2, 3, 4, 5]" "py_slice ex_rebuilt 69 72 = [0, 0, 0]"
    "py_slice ex_rebuilt 72 77 = [5, 0, 0, 0, 0x20]"
    "py_slice ex_rebuilt 104 109 = [5, 6, 7, 8, 9]"
    by (simp_all add: py_slice_def ex_rebuilt_def asus_pattern_def ex_pattern1_def
        ex_pattern2_def)
  from 1 2 show ?thesis by (simp add: ex_detect ex_structural)
qed

section \<open>Format B: fewer than two image files\<close>

text \<open>
  Claim C10. When fewer than two regular files of the \<open>MSI_pack\<close> directory have a name
  of the form \<open>image_nr<number>_off0x<hex>.<extension>\<close>, as the pattern of the method reads
  it, the structure-preserving repack returns failure and the output file is not opened:
  no repack of a single image happens in this mode. A directory with a matching name is
  not a file. Exactly: the method returns failure without output if and only if fewer
  than two such files have a name that does not end in \<open>.txt\<close>.
\<close>

theorem fewer_than_two_images_fails:
  "(length (filter is_image_file (listing dir)) < 2 \<longrightarrow>
      repack_with_structure_preservation self dir original_analysis modified = (False, None)) \<and>
   (repack_with_structure_preservation self dir original_analysis modified = (False, None) \<longleftrightarrow>
      length (filter (\<lambda>e. is_image_file e \<and> \<not> ends_with (ustr ''.txt'') (fst e))
        (listing dir)) < 2)"
proof -
  let ?fs = "sort_key (extract_image_number \<circ> fst) (collect_image_files dir)"
  have l: "length ?fs = length (collect_image_files dir)" by simp
  have "repack_with_structure_preservation self dir original_analysis modified = (False, None)
      \<longleftrightarrow> length (collect_image_files dir) < 2"
    unfolding repack_with_structure_preservation_def Let_def l
    by (auto split: prod.splits)
  with length_collect_image_files [of dir] length_collect_image_files_le [of dir]
  show ?thesis by auto
qed

text \<open>
  A directory with one image file, a sub-directory whose name matches the pattern and a
  text file; and a directory with two image files, the number of one of them written
  with an Arabic-Indic digit: it sorts behind number 0 and both are packed.
\<close>

definition ex_lone_dir :: msi_pack_dir where
  "ex_lone_dir =
     \<lparr> listing = [(ustr ''image_nr0_off0x0.png'', RegularFile [0xFF, 0xD8, 0xFF, 0xE0]),
                  (ustr ''image_nr1_off0x10.png'', Directory),
                  (ustr ''notes.txt'', RegularFile [])],
       metadata_entries = None \<rparr>"

definition ex_arabic_name :: ustring where
  "ex_arabic_name = ustr ''image_nr'' @ [0x661] @ ustr ''_off0x10.png''"

definition ex_arabic_dir :: msi_pack_dir where
  "ex_arabic_dir =
     \<lparr> listing = [(ex_arabic_name, RegularFile [0x89, 0x50, 0x4E, 0x47, 0x01]),
                  (ustr ''image_nr0_off0x0.png'', RegularFile [0x89, 0x50, 0x4E, 0x47])],
       metadata_entries = None \<rparr>"

lemma ex_lone_files:
  "filter is_image_file (listing ex_lone_dir)
     = [(ustr ''image_nr0_off0x0.png'', RegularFile [0xFF, 0xD8, 0xFF, 0xE0])]"
  "map fst (filter (matches_image_pattern \<circ> fst) (listing ex_lone_dir))
     = [ustr ''image_nr0_off0x0.png'', ustr ''image_nr1_off0x10.png'']"
  by (simp_all add: ex_lone_dir_def is_image_file_def name_defs)

lemma ex_arabic_files:
  "filter is_image_file (listing ex_arabic_dir) = listing ex_arabic_dir"
  by (simp add: ex_arabic_dir_def ex_arabic_name_def is_image_file_def name_defs)

lemma ex_arabic_number:
  "extract_image_number ex_arabic_name = 1"
  "extract_image_number (ustr ''image_nr0_off0x0.png'') = 0"
  by (simp_all add: extract_image_number_def ex_arabic_name_def name_defs starts_with_def
      parse_dec_def digit_value_def get_or_def)

lemma ex_arabic_collect:
  "collect_image_files ex_arabic_dir =
     [(ex_arabic_name, [0x89, 0x50, 0x4E, 0x47, 0x01]),
      (ustr ''image_nr0_off0x0.png'', [0x89, 0x50, 0x4E, 0x47])]"
  by (simp add: collect_image_files_def ex_arabic_dir_def ex_arabic_name_def name_defs
      starts_with_def ends_with_def)

lemma ex_arabic_repack:
  "repack_with_structure_preservation MSIImageRepacker_init ex_arabic_dir None None
     = (True, Some ex_msi_out)"
proof -
  have m: "metadata_entries ex_arabic_dir = None" by (simp add: ex_arabic_dir_def)
  have s: "sort_key (extract_image_number \<circ> fst) (collect_image_files ex_arabic_dir) =
      [(ustr ''image_nr0_off0x0.png'', [0x89, 0x50, 0x4E, 0x47]),
       (ex_arabic_name, [0x89, 0x50, 0x4E, 0x47, 0x01])]"
    by (simp add: ex_arabic_collect ex_arabic_number)
  show ?thesis
    unfolding repack_with_structure_preservation_def Let_def s
    by (simp add: m ex_msi_create_names)
qed

theorem fewer_than_two_images_fails_witness:
  "length (filter is_image_file (listing ex_lone_dir)) = 1 \<and>
   length (filter (matches_image_pattern \<circ> fst) (listing ex_lone_dir)) = 2 \<and>
   repack_with_structure_preservation MSIImageRepacker_init ex_lone_dir None None
     = (False, None) \<and>
   length (filter is_image_file (listing ex_arabic_dir)) = 2 \<and>
   repack_with_structure_preservation MSIImageRepacker_init ex_arabic_dir None None
     = (True, Some ex_msi_out)"
proof -
  have 1: "length (filter is_image_file (listing ex_lone_dir)) = 1"
    by (simp add: ex_lone_files(1))
  have 2: "length (filter (matches_image_pattern \<circ> fst) (listing ex_lone_dir)) = 2"
    using arg_cong [OF ex_lone_files(2), of length] by simp
  from fewer_than_two_images_fails [of ex_lone_dir MSIImageRepacker_init None None] 1
  have 3: "repack_with_structure_preservation MSIImageRepacker_init ex_lone_dir None None
      = (False, None)" by simp
  have 4: "length (filter is_image_file (listing ex_arabic_dir)) = 2"
    unfolding ex_arabic_files by (simp add: ex_arabic_dir_def)
  from 1 2 3 4 ex_arabic_repack show ?thesis by (intro conjI)
qed

end
